theory Spec2Isabelle
  imports Main
begin

section \<open>Strings and character classes\<close>

text \<open>
  JavaScript strings are sequences of UTF-16 code units. They are modelled as
  \<^typ>\<open>string\<close>; a \<^typ>\<open>char\<close> stands for the code unit of the same value
  (U+0000 .. U+00FF). The classes below are the ECMAScript classes restricted to
  that range: \<open>\d\<close> is \<open>[0-9]\<close>, \<open>\s\<close> is WhiteSpace or LineTerminator
  (TAB, LF, VT, FF, CR, SP, NBSP), and \<open>.\<close> (no \<open>s\<close> flag) is everything but a
  LineTerminator (LF, CR).
\<close>

definition isDigit :: "char \<Rightarrow> bool" where
  "isDigit c = (c \<in> set ''0123456789'')"

definition isSpace :: "char \<Rightarrow> bool" where
  "isSpace c =
     (c \<in> set [CHR 0x09, CHR 0x0A, CHR 0x0B, CHR 0x0C, CHR 0x0D, CHR 0x20, CHR 0xA0])"

definition isLineTerminator :: "char \<Rightarrow> bool" where
  "isLineTerminator c = (c \<in> set [CHR 0x0A, CHR 0x0D])"

section \<open>Regular expressions with backtracking and named groups\<close>

text \<open>
  The fragment of ECMAScript regular expressions that \<open>diagnosticPattern\<close> uses:
  the assertions \<open>^\<close> and \<open>$\<close> (no \<open>m\<close> flag), a literal character, the classes
  \<open>\d\<close>, \<open>\s\<close>, \<open>\S\<close> and \<open>.\<close>, sequence, the greedy quantifiers \<open>?\<close> and
  \<open>{k,}\<close> (\<open>*\<close> is \<open>Rep 0\<close>, \<open>+\<close> is \<open>Rep 1\<close>) and a named capturing group. A
  non-capturing group \<open>(?:r)\<close> is \<open>r\<close> itself.
\<close>

datatype regex =
    Bol | Eol | Lit char | Digit | Space | NonSpace | Dot
  | Seq regex regex | Opt regex | Rep nat regex | Group string regex

abbreviation Star :: "regex \<Rightarrow> regex" where
  "Star r \<equiv> Rep 0 r"

abbreviation Plus :: "regex \<Rightarrow> regex" where
  "Plus r \<equiv> Rep 1 r"

text \<open>
  A matcher state: the index reached in the input, the input from that index on, and the
  captures made so far (the most recent binding of a name first).
\<close>

record mstate =
  pos :: nat
  rest :: string
  caps :: "(string \<times> string) list"

fun groupNames :: "regex \<Rightarrow> string list" where
  "groupNames (Seq r1 r2) = groupNames r1 @ groupNames r2"
| "groupNames (Opt r) = groupNames r"
| "groupNames (Rep k r) = groupNames r"
| "groupNames (Group n r) = n # groupNames r"
| "groupNames _ = []"

text \<open>Every iteration of a quantifier starts with the captures of its body undefined.\<close>

definition clearCaps :: "regex \<Rightarrow> mstate \<Rightarrow> mstate" where
  "clearCaps r st = st\<lparr>caps := filter (\<lambda>(n, v). n \<notin> set (groupNames r)) (caps st)\<rparr>"

definition charMatch :: "(char \<Rightarrow> bool) \<Rightarrow> mstate \<Rightarrow> mstate list" where
  "charMatch p st =
     (case rest st of
        [] \<Rightarrow> []
      | c # cs \<Rightarrow> if p c then [st\<lparr>pos := Suc (pos st), rest := cs\<rparr>] else [])"

fun weight :: "regex \<Rightarrow> nat" where
  "weight (Seq r1 r2) = Suc (weight r1 + weight r2)"
| "weight (Opt r) = Suc (weight r)"
| "weight (Rep k r) = Suc (k + weight r)"
| "weight (Group n r) = Suc (weight r)"
| "weight _ = 0"

text \<open>
  \<open>rmatch r st\<close> lists every way \<open>r\<close> can match at \<open>st\<close>, in the order in which a
  backtracking matcher tries them: the head of the list is the match the engine reports,
  the tail is what it would fall back to. A greedy quantifier therefore lists one more
  iteration before stopping, and an iteration of a quantifier with minimum 0 that consumes
  nothing is rejected (the empty check of the language's RepeatMatcher).
\<close>

function (sequential) rmatch :: "regex \<Rightarrow> mstate \<Rightarrow> mstate list" where
  "rmatch Bol st = (if pos st = 0 then [st] else [])"
| "rmatch Eol st = (if rest st = [] then [st] else [])"
| "rmatch (Lit c) st = charMatch (\<lambda>x. x = c) st"
| "rmatch Digit st = charMatch isDigit st"
| "rmatch Space st = charMatch isSpace st"
| "rmatch NonSpace st = charMatch (\<lambda>x. \<not> isSpace x) st"
| "rmatch Dot st = charMatch (\<lambda>x. \<not> isLineTerminator x) st"
| "rmatch (Seq r1 r2) st = concat (map (rmatch r2) (rmatch r1 st))"
| "rmatch (Opt r) st =
     filter (\<lambda>st'. length (rest st') < length (rest st)) (rmatch r (clearCaps r st)) @ [st]"
| "rmatch (Rep (Suc k) r) st = concat (map (rmatch (Rep k r)) (rmatch r (clearCaps r st)))"
| "rmatch (Rep 0 r) st =
     concat (map (\<lambda>st'. if length (rest st') < length (rest st) then rmatch (Rep 0 r) st' else [])
                 (rmatch r (clearCaps r st))) @ [st]"
| "rmatch (Group n r) st =
     map (\<lambda>st'. st'\<lparr>caps := (n, take (pos st' - pos st) (rest st)) # caps st'\<rparr>) (rmatch r st)"
  by pat_completeness auto
termination
  by (relation "measures [\<lambda>(r, st). weight r, \<lambda>(r, st). length (rest st)]") auto

text \<open>
  \<open>RegExp.prototype.exec\<close> of a pattern without the \<open>g\<close> or \<open>y\<close> flag: the match is
  tried at index 0, then at index 1, and so on up to the end of the input; the first index
  with a match wins. The result is the \<open>groups\<close> object of the match.
\<close>

fun execFrom :: "regex \<Rightarrow> nat \<Rightarrow> string \<Rightarrow> (string \<times> string) list option" where
  "execFrom re i [] =
     (case rmatch re \<lparr>pos = i, rest = [], caps = []\<rparr> of
        st # _ \<Rightarrow> Some (caps st)
      | [] \<Rightarrow> None)"
| "execFrom re i (c # cs) =
     (case rmatch re \<lparr>pos = i, rest = c # cs, caps = []\<rparr> of
        st # _ \<Rightarrow> Some (caps st)
      | [] \<Rightarrow> execFrom re (Suc i) cs)"

definition exec :: "regex \<Rightarrow> string \<Rightarrow> (string \<times> string) list option" where
  "exec re s = execFrom re 0 s"

section \<open>The diagnostic pattern\<close>

text \<open>
  \<^verbatim>\<open>filePath.replace(/[.*+?^${}()|[\]\\]/g, '\\$&')\<close>: every character of the class
  gets a backslash in front.
\<close>

definition backslash :: char where
  "backslash = CHR 0x5C"

definition syntaxChar :: "char \<Rightarrow> bool" where
  "syntaxChar c =
     (c \<in> set [CHR ''.'', CHR ''*'', CHR ''+'', CHR ''?'', CHR ''^'', CHR ''$'', CHR ''{'',
               CHR ''}'', CHR ''('', CHR '')'', CHR ''|'', CHR ''['', CHR '']'', CHR 0x5C])"

definition escapedFilePath :: "string \<Rightarrow> string" where
  "escapedFilePath filePath =
     concat (map (\<lambda>c. if syntaxChar c then [backslash, c] else [c]) filePath)"

text \<open>
  How the \<open>RegExp\<close> constructor reads the interpolated fragment: a backslash followed by a
  syntax character is that character taken literally, and any character that is not a
  syntax character stands for itself. \<open>None\<close> is a fragment outside this literal
  sub-grammar (a bare syntax character, or another escape).
\<close>

fun literalAtoms :: "string \<Rightarrow> regex list option" where
  "literalAtoms [] = Some []"
| "literalAtoms (c # cs) =
     (if c = backslash then
        (case cs of
           [] \<Rightarrow> None
         | d # ds \<Rightarrow> if syntaxChar d then map_option ((#) (Lit d)) (literalAtoms ds) else None)
      else if syntaxChar c then None
      else map_option ((#) (Lit c)) (literalAtoms cs))"

text \<open>
  \<^verbatim>\<open>^${escapedFilePath}:(?:(?<line>\d+):)?\s*(?<severity>\S)+:\s*(?<body>.+)$\<close>
\<close>

definition patternTail :: regex where
  "patternTail =
     Seq (Lit (CHR '':''))
    (Seq (Opt (Seq (Group ''line'' (Plus Digit)) (Lit (CHR '':''))))
    (Seq (Star Space)
    (Seq (Plus (Group ''severity'' NonSpace))
    (Seq (Lit (CHR '':''))
    (Seq (Star Space)
    (Seq (Group ''body'' (Plus Dot))
         Eol))))))"

definition diagnosticPattern :: "string \<Rightarrow> regex option" where
  "diagnosticPattern filePath =
     map_option (\<lambda>atoms. Seq Bol (foldr Seq atoms patternTail))
       (literalAtoms (escapedFilePath filePath))"

section \<open>Documents, diagnostics and the line listener\<close>

record Uri =
  scheme :: string
  fsPath :: string

text \<open>
  A text document of the host. \<open>workspaceFolder\<close> is the path of the workspace folder that
  owns the document, if any (\<open>vscode.workspace.getWorkspaceFolder(document.uri)\<close>).
\<close>

record document =
  uri :: Uri
  languageId :: string
  isUntitled :: bool
  lineCount :: nat
  workspaceFolder :: "string option"

datatype DiagnosticSeverity = Error | Warning | Information | Hint

text \<open>
  A diagnostic spans one whole line of the document: its range is
  \<open>document.lineAt(safeLineNumber).range\<close>, kept here as the index of that line.
\<close>

record diagnostic =
  rangeLine :: int
  message :: string
  severity :: DiagnosticSeverity

definition MODE_language :: string where
  "MODE_language = ''rpm-spec''"

definition MODE_scheme :: string where
  "MODE_scheme = ''file''"

definition SEVERITY :: "string \<rightharpoonup> DiagnosticSeverity" where
  "SEVERITY = [''W'' \<mapsto> Warning, ''E'' \<mapsto> Error]"

text \<open>
  \<open>Number(s)\<close> for a string of decimal digits, which is all that the group \<open>line\<close> can
  capture. The value is exact here; the host's doubles are exact up to \<open>2^53\<close> and round
  monotonically above, which the clamp against \<open>lineCount\<close> does not see.
\<close>

definition digitValue :: "char \<Rightarrow> nat" where
  "digitValue c = of_char c - 48"

definition Number :: "string \<Rightarrow> nat" where
  "Number s = foldl (\<lambda>n c. 10 * n + digitValue c) 0 s"

definition lineNumber :: "(string \<times> string) list \<Rightarrow> int" where
  "lineNumber groups =
     (case map_of groups ''line'' of
        Some l \<Rightarrow> if l \<noteq> [] then int (Number l) - 1 else 0
      | None \<Rightarrow> 0)"

definition safeLineNumber :: "document \<Rightarrow> (string \<times> string) list \<Rightarrow> int" where
  "safeLineNumber document groups =
     min (max (lineNumber groups) 0) (max (int (lineCount document) - 1) 0)"

definition lineDiagnostic :: "document \<Rightarrow> (string \<times> string) list \<Rightarrow> diagnostic" where
  "lineDiagnostic document groups =
     \<lparr>rangeLine = safeLineNumber document groups,
      message = (case map_of groups ''body'' of Some b \<Rightarrow> b | None \<Rightarrow> ''Unknown rpmlint warning''),
      severity =
        (case SEVERITY (case map_of groups ''severity'' of Some s \<Rightarrow> s | None \<Rightarrow> ''W'') of
           Some v \<Rightarrow> v
         | None \<Rightarrow> Warning)\<rparr>"

text \<open>The listener of the reader's \<open>line\<close> event; \<open>array\<close> is the list it pushes to.\<close>

definition onLine :: "document \<Rightarrow> regex \<Rightarrow> string \<Rightarrow> diagnostic list \<Rightarrow> diagnostic list" where
  "onLine document pattern line array =
     (case exec pattern line of
        None \<Rightarrow> array
      | Some groups \<Rightarrow> array @ [lineDiagnostic document groups])"

section \<open>Configuration, host and spawn contexts\<close>

text \<open>The section \<open>rpmspec\<close> of the workspace configuration; \<open>None\<close> is an unset key.\<close>

record configuration =
  cfgLint :: "bool option"
  cfgLsp :: "bool option"
  cfgRpmlintPath :: "string option"
  cfgLspPath :: "string option"

definition getLint :: "configuration \<Rightarrow> bool" where
  "getLint config = (case cfgLint config of Some b \<Rightarrow> b | None \<Rightarrow> True)"

definition getLsp :: "configuration \<Rightarrow> bool" where
  "getLsp config = (case cfgLsp config of Some b \<Rightarrow> b | None \<Rightarrow> True)"

definition getRpmlintPath :: "configuration \<Rightarrow> string" where
  "getRpmlintPath config = (case cfgRpmlintPath config of Some p \<Rightarrow> p | None \<Rightarrow> ''rpmlint'')"

definition getLspPath :: "configuration \<Rightarrow> string" where
  "getLspPath config = (case cfgLspPath config of Some p \<Rightarrow> p | None \<Rightarrow> ''rpm_lsp_server'')"

record host =
  processEnvPATH :: "string option"
  processCwd :: string
  workspaceFolders :: "string list"

text \<open>
  The working directory of a spawn: a directory, or \<open>path.dirname\<close> of a file path (the
  path module belongs to the host and is left symbolic).
\<close>

datatype cwd = Dir string | DirnameOf string

record spawnOptions =
  envLANG :: string
  envPATH :: string
  optCwd :: cwd

record RPMLintContext =
  ctxPath :: string
  ctxOptions :: spawnOptions

definition getLintContext :: "host \<Rightarrow> configuration \<Rightarrow> document \<Rightarrow> RPMLintContext" where
  "getLintContext h config document =
     \<lparr>ctxPath = getRpmlintPath config,
      ctxOptions =
        \<lparr>envLANG = ''C'',
         envPATH = (case processEnvPATH h of Some p \<Rightarrow> p | None \<Rightarrow> []),
         optCwd = (case workspaceFolder document of
                     Some f \<Rightarrow> Dir f
                   | None \<Rightarrow> DirnameOf (fsPath (uri document)))\<rparr>\<rparr>"

definition getSanityContext :: "host \<Rightarrow> configuration \<Rightarrow> RPMLintContext" where
  "getSanityContext h config =
     \<lparr>ctxPath = getRpmlintPath config,
      ctxOptions =
        \<lparr>envLANG = ''C'',
         envPATH = (case processEnvPATH h of Some p \<Rightarrow> p | None \<Rightarrow> []),
         optCwd = (case workspaceFolders h of f # _ \<Rightarrow> Dir f | [] \<Rightarrow> Dir (processCwd h))\<rparr>\<rparr>"

section \<open>The extension's state and its event handlers\<close>

text \<open>A call of \<open>cp.spawn\<close>.\<close>

record spawnCall =
  command :: string
  args :: "string list"
  spawnOpts :: spawnOptions

text \<open>
  What a spawned child process reports first: the \<open>exit\<close> event with its code (\<open>null\<close>
  when a signal ended it), or the \<open>error\<close> event when it could not be spawned.
\<close>

datatype processEnd = Exit "int option" | SpawnError string

text \<open>
  One invocation of \<open>lint\<close> that reached \<open>cp.spawn\<close>: the document and the pattern its
  listeners close over, and the local \<open>array\<close>.
\<close>

record lintRun =
  runDocument :: document
  runPattern :: regex
  runArray :: "diagnostic list"

text \<open>The language client, as far as the extension configures and drives it.\<close>

record languageClient =
  clientId :: string
  clientName :: string
  serverCommand :: string
  serverArgs :: "string list"
  serverCwd :: "cwd option"
  serverEnvLANG :: string
  serverEnvPATH :: string
  selectorLanguage :: string
  selectorScheme :: string
  startCalls :: nat
  stopCalls :: nat

datatype disposable = DiagnosticCollection | LanguageClientHandle

text \<open>
  The state after \<open>activate\<close> has returned. \<open>configuration\<close> and \<open>textDocuments\<close> belong to
  the host; \<open>capturedConfig\<close> is the \<open>config\<close> object that the callback of the sanity
  check closes over. \<open>diagnostics\<close> is the module's collection (\<open>diagnosticsCreated\<close> tells
  whether it has been assigned), \<open>onDidOpen\<close>, \<open>onDidSave\<close> and \<open>onDidClose\<close> tell whether
  the listener is registered. \<open>warnings\<close>, \<open>spawned\<close> and \<open>setCalls\<close> log the calls of
  \<open>showWarningMessage\<close>, \<open>cp.spawn\<close> and \<open>diagnostics.set\<close> in order.
\<close>

record extState =
  hostEnv :: host
  configuration :: configuration
  textDocuments :: "document list"
  capturedConfig :: configuration
  sanityPending :: bool
  lspPending :: bool
  diagnosticsCreated :: bool
  diagnostics :: "Uri \<rightharpoonup> diagnostic list"
  onDidOpen :: bool
  onDidSave :: bool
  onDidClose :: bool
  subscriptions :: "disposable list"
  warnings :: "string list"
  spawned :: "spawnCall list"
  setCalls :: "(Uri \<times> diagnostic list) list"
  runs :: "lintRun list"
  lspClient :: "languageClient option"

definition checkSanity :: "processEnd \<Rightarrow> extState \<Rightarrow> int option \<times> extState" where
  "checkSanity outcome st =
     (case outcome of
        Exit code \<Rightarrow> (code, st)
      | SpawnError error \<Rightarrow>
          (None, st\<lparr>warnings := warnings st @ [''rpmlint cannot be launched: '' @ error]\<rparr>))"

text \<open>
  \<open>cp.spawn\<close> does not always return a process: it raises at once, before anything is
  spawned, when the file is the empty string or the file or an argument holds a NUL
  character (\<open>ERR_INVALID_ARG_VALUE\<close>). No call of \<open>cp.spawn\<close> in the extension is guarded.
  \<open>spawned\<close> logs the calls that returned.
\<close>

datatype exn = InvalidArgValue

definition spawnRaises :: "string \<Rightarrow> string list \<Rightarrow> bool" where
  "spawnRaises file arguments =
     (file = [] \<or> CHR 0x00 \<in> set file \<or> (\<exists>a \<in> set arguments. CHR 0x00 \<in> set a))"

text \<open>
  One call of \<open>lint\<close>: the exception that ends it, if any, and the state it leaves. The
  exception of \<open>cp.spawn\<close> comes before the first write of that branch, so the state is
  then the one before the call.
\<close>

definition lintCall :: "document \<Rightarrow> extState \<Rightarrow> exn option \<times> extState" where
  "lintCall document st =
     (if languageId document \<noteq> MODE_language then (None, st)
      else if scheme (uri document) \<noteq> MODE_scheme \<or> isUntitled document then (None, st)
      else if \<not> getLint (configuration st) then
        (None, st\<lparr>diagnostics := (diagnostics st)(uri document := None)\<rparr>)
      else
        let ctx = getLintContext (hostEnv st) (configuration st) document;
            filePath = fsPath (uri document)
        in if spawnRaises (ctxPath ctx) [filePath] then (Some InvalidArgValue, st)
           else
             let st1 = st\<lparr>spawned := spawned st @
                         [\<lparr>command = ctxPath ctx, args = [filePath],
                           spawnOpts = ctxOptions ctx\<rparr>]\<rparr>
             in case diagnosticPattern filePath of
                  None \<Rightarrow> (None, st1)
                | Some pattern \<Rightarrow>
                    (None, st1\<lparr>runs := runs st1 @
                       [\<lparr>runDocument = document, runPattern = pattern, runArray = []\<rparr>]\<rparr>))"

text \<open>
  The state after a call of \<open>lint\<close>, returned or raised. This is all that a listener of
  the host's open and save events leaves behind: the host catches what a listener raises.
\<close>

definition lint :: "document \<Rightarrow> extState \<Rightarrow> extState" where
  "lint document st = snd (lintCall document st)"

text \<open>
  \<open>textDocuments.forEach(doc => lint(doc))\<close>: the first call that raises ends the loop and
  the function around it.
\<close>

fun lintEach :: "document list \<Rightarrow> extState \<Rightarrow> exn option \<times> extState" where
  "lintEach [] st = (None, st)"
| "lintEach (doc # docs) st =
     (case lintCall doc st of
        (Some e, st1) \<Rightarrow> (Some e, st1)
      | (None, st1) \<Rightarrow> lintEach docs st1)"

text \<open>The three listeners of a run; a run is named by its index in \<open>runs\<close>.\<close>

definition readerLine :: "nat \<Rightarrow> string \<Rightarrow> extState \<Rightarrow> extState" where
  "readerLine rid line st =
     (if rid < length (runs st) then
        let r = runs st ! rid
        in st\<lparr>runs := (runs st)
                [rid := r\<lparr>runArray := onLine (runDocument r) (runPattern r) line (runArray r)\<rparr>]\<rparr>
      else st)"

definition readerClose :: "nat \<Rightarrow> extState \<Rightarrow> extState" where
  "readerClose rid st =
     (if rid < length (runs st) then
        let r = runs st ! rid
        in st\<lparr>diagnostics := (diagnostics st)(uri (runDocument r) \<mapsto> runArray r),
              setCalls := setCalls st @ [(uri (runDocument r), runArray r)]\<rparr>
      else st)"

definition linterError :: "nat \<Rightarrow> string \<Rightarrow> extState \<Rightarrow> extState" where
  "linterError rid error st =
     (if rid < length (runs st) then
        let r = runs st ! rid
        in st\<lparr>warnings := warnings st @ [''rpmlint failed: '' @ error],
              diagnostics := (diagnostics st)(uri (runDocument r) \<mapsto> []),
              setCalls := setCalls st @ [(uri (runDocument r), [])]\<rparr>
      else st)"

definition checkLspAvailable :: "processEnd \<Rightarrow> bool" where
  "checkLspAvailable outcome = (case outcome of Exit code \<Rightarrow> True | SpawnError error \<Rightarrow> False)"

text \<open>\<open>!exitCode\<close> for \<open>exitCode: number | null\<close>.\<close>

definition falsy :: "int option \<Rightarrow> bool" where
  "falsy exitCode = (case exitCode of None \<Rightarrow> True | Some n \<Rightarrow> n = 0)"

text \<open>
  \<open>activate\<close> up to its return: both contexts are built, the sanity probe is spawned, and
  the language server's probe is spawned unless \<open>lsp\<close> is off. A probe is spawned inside
  the executor of its promise: when \<open>cp.spawn\<close> raises there, the promise is rejected, its
  callback (registered for fulfilment only) never runs, and \<open>activate\<close> goes on.
\<close>

definition activate :: "host \<Rightarrow> configuration \<Rightarrow> document list \<Rightarrow> extState" where
  "activate h config docs =
     (let sanityContext = getSanityContext h config;
          lspEnabled = getLsp config;
          lspPath = getLspPath config;
          sanityRaises = spawnRaises (ctxPath sanityContext) [''--help''];
          st = \<lparr>hostEnv = h, configuration = config, textDocuments = docs,
                capturedConfig = config, sanityPending = (\<not> sanityRaises), lspPending = False,
                diagnosticsCreated = False, diagnostics = Map.empty,
                onDidOpen = False, onDidSave = False, onDidClose = False,
                subscriptions = [], warnings = [],
                spawned = (if sanityRaises then []
                           else [\<lparr>command = ctxPath sanityContext, args = [''--help''],
                                   spawnOpts = ctxOptions sanityContext\<rparr>]),
                setCalls = [], runs = [], lspClient = None\<rparr>
      in if \<not> lspEnabled then st
         else if spawnRaises lspPath [''--help''] then st
         else st\<lparr>lspPending := True,
                 spawned := spawned st @
                   [\<lparr>command = lspPath, args = [''--help''],
                     spawnOpts = ctxOptions sanityContext\<rparr>]\<rparr>)"

text \<open>The callback of \<open>checkSanity(sanityContext).then\<close>.\<close>

definition sanityThen :: "int option \<Rightarrow> extState \<Rightarrow> extState" where
  "sanityThen exitCode st =
     (if falsy exitCode \<and> getLint (capturedConfig st) then
        let st1 = st\<lparr>diagnosticsCreated := True, diagnostics := Map.empty,
                      onDidOpen := True, onDidSave := True\<rparr>
        in case lintEach (textDocuments st1) st1 of
             (Some e, st2) \<Rightarrow> st2
           | (None, st2) \<Rightarrow>
               st2\<lparr>onDidClose := True,
                    subscriptions := subscriptions st2 @ [DiagnosticCollection]\<rparr>
      else st)"

text \<open>The callback of \<open>checkLspAvailable(lspPath, sanityContext.options).then\<close>.\<close>

definition lspThen :: "bool \<Rightarrow> extState \<Rightarrow> extState" where
  "lspThen available st =
     (if \<not> available then st
      else
        let sanityContext = getSanityContext (hostEnv st) (capturedConfig st);
            client = \<lparr>clientId = ''rpm-spec-lsp'', clientName = ''RPM Spec Language Server'',
                      serverCommand = getLspPath (capturedConfig st), serverArgs = [''--stdio''],
                      serverCwd = Some (optCwd (ctxOptions sanityContext)),
                      serverEnvLANG = envLANG (ctxOptions sanityContext),
                      serverEnvPATH = envPATH (ctxOptions sanityContext),
                      selectorLanguage = MODE_language, selectorScheme = MODE_scheme,
                      startCalls = 0, stopCalls = 0\<rparr>
        in st\<lparr>lspClient := Some (client\<lparr>startCalls := Suc (startCalls client)\<rparr>),
              subscriptions := subscriptions st @ [LanguageClientHandle]\<rparr>)"

definition deactivate :: "extState \<Rightarrow> extState" where
  "deactivate st =
     (case lspClient st of
        Some client \<Rightarrow> st\<lparr>lspClient := Some (client\<lparr>stopCalls := Suc (stopCalls client)\<rparr>)\<rparr>
      | None \<Rightarrow> st)"

text \<open>
  The events that reach the extension after \<open>activate\<close>: the two probes settle (a promise
  settles once), the host reports documents opened, saved and closed and a changed
  configuration, a run's reader delivers a line or closes, a run's process reports a spawn
  error, and the host shuts the extension down.
\<close>

datatype event =
    SanityProbe processEnd
  | LspProbe processEnd
  | DidOpen document
  | DidSave document
  | DidClose document
  | ConfigurationChanged configuration
  | ReaderLine nat string
  | ReaderClose nat
  | LinterError nat string
  | Deactivate

fun step :: "event \<Rightarrow> extState \<Rightarrow> extState" where
  "step (SanityProbe outcome) st =
     (if sanityPending st then
        (case checkSanity outcome (st\<lparr>sanityPending := False\<rparr>) of
           (exitCode, st1) \<Rightarrow> sanityThen exitCode st1)
      else st)"
| "step (LspProbe outcome) st =
     (if lspPending st then lspThen (checkLspAvailable outcome) (st\<lparr>lspPending := False\<rparr>)
      else st)"
| "step (DidOpen doc) st =
     (let st1 = st\<lparr>textDocuments := textDocuments st @ [doc]\<rparr>
      in if onDidOpen st1 then lint doc st1 else st1)"
| "step (DidSave doc) st = (if onDidSave st then lint doc st else st)"
| "step (DidClose doc) st =
     (let st1 = st\<lparr>textDocuments := filter (\<lambda>d. uri d \<noteq> uri doc) (textDocuments st)\<rparr>
      in if onDidClose st1 then st1\<lparr>diagnostics := (diagnostics st1)(uri doc := None)\<rparr> else st1)"
| "step (ConfigurationChanged config) st = st\<lparr>configuration := config\<rparr>"
| "step (ReaderLine rid line) st = readerLine rid line st"
| "step (ReaderClose rid) st = readerClose rid st"
| "step (LinterError rid error) st = linterError rid error st"
| "step Deactivate st = deactivate st"

definition run :: "event list \<Rightarrow> extState \<Rightarrow> extState" where
  "run events st = foldl (\<lambda>s e. step e s) st events"

section \<open>The tail of the pattern, piece by piece\<close>

text \<open>
  \<open>adv k st\<close> is the state \<open>k\<close> characters further on; \<open>grpAdv n k st\<close> is the state after
  \<open>k\<close> iterations of a repeated one-character group named \<open>n\<close>, which holds the character
  consumed last. The pieces below are the sub-patterns of \<open>patternTail\<close>, from the right.
\<close>

definition adv :: "nat \<Rightarrow> mstate \<Rightarrow> mstate" where
  "adv k st = st\<lparr>pos := pos st + k, rest := drop k (rest st)\<rparr>"

definition grpAdv :: "string \<Rightarrow> nat \<Rightarrow> mstate \<Rightarrow> mstate" where
  "grpAdv n k st =
     (if k = 0 then st
      else st\<lparr>pos := pos st + k, rest := drop k (rest st),
              caps := (n, [rest st ! (k - 1)]) # filter (\<lambda>(m, v). m \<noteq> n) (caps st)\<rparr>)"

definition bodyEol :: regex where
  "bodyEol = Seq (Group ''body'' (Plus Dot)) Eol"

definition afterSeverity :: regex where
  "afterSeverity = Seq (Lit (CHR '':'')) (Seq (Star Space) bodyEol)"

definition fromSeverity :: regex where
  "fromSeverity = Seq (Plus (Group ''severity'' NonSpace)) afterSeverity"

definition fromSpace :: regex where
  "fromSpace = Seq (Star Space) fromSeverity"

definition optLine :: regex where
  "optLine = Opt (Seq (Group ''line'' (Plus Digit)) (Lit (CHR '':'')))"

section \<open>Example inputs\<close>

definition pkgSpec :: document where
  "pkgSpec =
     \<lparr>uri = \<lparr>scheme = ''file'', fsPath = ''/ws/pkg.spec''\<rparr>, languageId = ''rpm-spec'',
      isUntitled = False, lineCount = 5, workspaceFolder = Some ''/ws''\<rparr>"

definition libSpec :: document where
  "libSpec =
     \<lparr>uri = \<lparr>scheme = ''file'', fsPath = ''/ws/lib.spec''\<rparr>, languageId = ''rpm-spec'',
      isUntitled = False, lineCount = 9, workspaceFolder = Some ''/ws''\<rparr>"

definition defaultConfig :: configuration where
  "defaultConfig = \<lparr>cfgLint = None, cfgLsp = None, cfgRpmlintPath = None, cfgLspPath = None\<rparr>"

definition lintOff :: configuration where
  "lintOff = \<lparr>cfgLint = Some False, cfgLsp = None, cfgRpmlintPath = None, cfgLspPath = None\<rparr>"

definition someHost :: host where
  "someHost =
     \<lparr>processEnvPATH = Some ''/usr/bin'', processCwd = ''/home/u'', workspaceFolders = [''/ws'']\<rparr>"

text \<open>
  Two open documents have been linted and hold one diagnostic each; then the user switches
  \<open>rpmspec.lint\<close> off.
\<close>

definition bothLintedThenOff :: extState where
  "bothLintedThenOff =
     run [SanityProbe (Exit (Some 0)),
          ReaderLine 0 ''/ws/pkg.spec:3:W: trailing whitespace'',
          ReaderLine 1 ''/ws/lib.spec:E: macro undefined'',
          ReaderClose 1, ReaderClose 0,
          ConfigurationChanged lintOff]
       (activate someHost defaultConfig [pkgSpec, libSpec])"




definition freshSession :: extState where
  "freshSession = activate someHost defaultConfig []"

definition exampleOutput :: "string list" where
  "exampleOutput =
     [''/ws/pkg.spec:3:W: trailing whitespace'',
      ''/ws/pkg.spec:E: macro undefined'',
      ''unrelated text'']"

section \<open>The pattern is the literal path followed by the fixed tail\<close>

lemma literalAtoms_escaped: "literalAtoms (escapedFilePath p) = Some (map Lit p)"
  by (induction p) (auto simp: escapedFilePath_def syntaxChar_def backslash_def)

lemma diagnosticPattern_eq:
  "diagnosticPattern p = Some (Seq Bol (foldr Seq (map Lit p) patternTail))"
  using literalAtoms_escaped[of p] by (simp add: diagnosticPattern_def)

section \<open>What \<open>lint\<close> changes\<close>

lemma lintCall_enabled:
  assumes "languageId d = MODE_language" "scheme (uri d) = MODE_scheme" "\<not> isUntitled d"
    "getLint (configuration st)"
    "\<not> spawnRaises (getRpmlintPath (configuration st)) [fsPath (uri d)]"
  shows "lintCall d st = (None, st\<lparr>spawned := spawned st @
            [\<lparr>command = getRpmlintPath (configuration st), args = [fsPath (uri d)],
              spawnOpts = ctxOptions (getLintContext (hostEnv st) (configuration st) d)\<rparr>],
          runs := runs st @ [\<lparr>runDocument = d,
             runPattern = Seq Bol (foldr Seq (map Lit (fsPath (uri d))) patternTail),
             runArray = []\<rparr>]\<rparr>)"
  using assms by (simp add: lintCall_def diagnosticPattern_eq Let_def getLintContext_def)

lemma lint_enabled:
  assumes "languageId d = MODE_language" "scheme (uri d) = MODE_scheme" "\<not> isUntitled d"
    "getLint (configuration st)"
    "\<not> spawnRaises (getRpmlintPath (configuration st)) [fsPath (uri d)]"
  shows "lint d st = st\<lparr>spawned := spawned st @
            [\<lparr>command = getRpmlintPath (configuration st), args = [fsPath (uri d)],
              spawnOpts = ctxOptions (getLintContext (hostEnv st) (configuration st) d)\<rparr>],
          runs := runs st @ [\<lparr>runDocument = d,
             runPattern = Seq Bol (foldr Seq (map Lit (fsPath (uri d))) patternTail),
             runArray = []\<rparr>]\<rparr>"
  by (simp add: lint_def lintCall_enabled[OF assms])

lemma lint_keeps:
  "hostEnv (lint d st) = hostEnv st"
  "configuration (lint d st) = configuration st"
  "textDocuments (lint d st) = textDocuments st"
  "capturedConfig (lint d st) = capturedConfig st"
  "sanityPending (lint d st) = sanityPending st"
  "lspPending (lint d st) = lspPending st"
  "diagnosticsCreated (lint d st) = diagnosticsCreated st"
  "onDidOpen (lint d st) = onDidOpen st"
  "onDidSave (lint d st) = onDidSave st"
  "onDidClose (lint d st) = onDidClose st"
  "subscriptions (lint d st) = subscriptions st"
  "warnings (lint d st) = warnings st"
  "setCalls (lint d st) = setCalls st"
  "lspClient (lint d st) = lspClient st"
  by (simp_all add: lint_def lintCall_def Let_def split: option.split)

lemma lintEach_Cons:
  "lintEach (d # ds) st =
     (case fst (lintCall d st) of
        Some e \<Rightarrow> (Some e, lint d st)
      | None \<Rightarrow> lintEach ds (lint d st))"
  by (cases "lintCall d st") (simp add: lint_def split: option.split)

lemma lintEach_keeps:
  "hostEnv (snd (lintEach ds st)) = hostEnv st"
  "configuration (snd (lintEach ds st)) = configuration st"
  "capturedConfig (snd (lintEach ds st)) = capturedConfig st"
  "lspPending (snd (lintEach ds st)) = lspPending st"
  "diagnosticsCreated (snd (lintEach ds st)) = diagnosticsCreated st"
  "onDidOpen (snd (lintEach ds st)) = onDidOpen st"
  "onDidSave (snd (lintEach ds st)) = onDidSave st"
  "subscriptions (snd (lintEach ds st)) = subscriptions st"
  "warnings (snd (lintEach ds st)) = warnings st"
  "lspClient (snd (lintEach ds st)) = lspClient st"
  by (induction ds arbitrary: st,
      simp_all add: lintEach_Cons lint_keeps del: lintEach.simps(2) split: option.split)+

lemma lintCall_raises:
  "fst (lintCall d st) \<noteq> None
     \<Longrightarrow> spawnRaises (getRpmlintPath (configuration st)) [fsPath (uri d)]"
  by (simp add: lintCall_def Let_def getLintContext_def split: if_splits option.splits)

lemma lintEach_returns:
  assumes "\<forall>d\<in>set ds. \<not> spawnRaises (getRpmlintPath (configuration st)) [fsPath (uri d)]"
  shows "fst (lintEach ds st) = None"
  using assms
proof (induction ds arbitrary: st)
  case Nil
  show ?case by simp
next
  case (Cons d ds)
  have "\<not> spawnRaises (getRpmlintPath (configuration st)) [fsPath (uri d)]"
    using Cons.prems by simp
  then have "fst (lintCall d st) = None" using lintCall_raises[of d st] by blast
  then show ?case
    using Cons.IH[of "lint d st"] Cons.prems
    by (simp add: lintEach_Cons lint_keeps del: lintEach.simps(2))
qed

lemma run_append: "run (xs @ ys) st = run ys (run xs st)"
  by (simp add: run_def)

section \<open>The sanity probe\<close>

text \<open>
  C1 says that a sanity probe that cannot be spawned leaves the session without any
  diagnostic subscription. The error listener of \<open>checkSanity\<close> shows the warning and
  resolves the promise with \<open>null\<close>, and \<open>!null\<close> holds: with \<open>rpmspec.lint\<close> on, the
  callback registers the open, save and close listeners all the same, lints the open
  document, and a later save spawns the linter again.
\<close>

theorem sanity_spawn_error_registers:
  "warnings (run [SanityProbe (SpawnError ''ENOENT'')] (activate someHost defaultConfig [pkgSpec]))
     = [''rpmlint cannot be launched: ENOENT'']
   \<and> onDidOpen (run [SanityProbe (SpawnError ''ENOENT'')] (activate someHost defaultConfig [pkgSpec]))
   \<and> onDidSave (run [SanityProbe (SpawnError ''ENOENT'')] (activate someHost defaultConfig [pkgSpec]))
   \<and> onDidClose (run [SanityProbe (SpawnError ''ENOENT'')] (activate someHost defaultConfig [pkgSpec]))
   \<and> map command
        (spawned (run [SanityProbe (SpawnError ''ENOENT''), DidSave pkgSpec]
                    (activate someHost defaultConfig [pkgSpec])))
     = [''rpmlint'', ''rpm_lsp_server'', ''rpmlint'', ''rpmlint'']"
  by code_simp

text \<open>
  The same for every host, configuration with \<open>lint\<close> on, and set of open documents, as
  long as the calls of \<open>cp.spawn\<close> return.
\<close>

lemma spawn_error_passes_the_gate:
  assumes "getLint config" "\<not> spawnRaises (getRpmlintPath config) [''--help'']"
    "\<forall>d\<in>set docs. \<not> spawnRaises (getRpmlintPath config) [fsPath (uri d)]"
  shows "onDidOpen (step (SanityProbe (SpawnError error)) (activate h config docs))
    \<and> onDidSave (step (SanityProbe (SpawnError error)) (activate h config docs))
    \<and> onDidClose (step (SanityProbe (SpawnError error)) (activate h config docs))
    \<and> warnings (step (SanityProbe (SpawnError error)) (activate h config docs))
        = [''rpmlint cannot be launched: '' @ error]"
proof -
  let ?s0 = "activate h config docs"
  let ?s1 = "?s0\<lparr>sanityPending := False,
      warnings := warnings ?s0 @ [''rpmlint cannot be launched: '' @ error],
      diagnosticsCreated := True, diagnostics := Map.empty, onDidOpen := True, onDidSave := True\<rparr>"
  have c: "configuration ?s1 = config" "textDocuments ?s1 = docs" "capturedConfig ?s0 = config"
      "sanityPending ?s0" "warnings ?s0 = []"
    using assms(2) by (simp_all add: activate_def Let_def getSanityContext_def)
  have c0: "configuration ?s0 = config" by (simp add: activate_def Let_def)
  have "fst (lintEach docs ?s1) = None"
    by (rule lintEach_returns) (simp add: c0 assms(3))
  then obtain s2 where s2: "lintEach docs ?s1 = (None, s2)" by (cases "lintEach docs ?s1") simp
  have k: "onDidOpen s2" "onDidSave s2" "warnings s2 = [''rpmlint cannot be launched: '' @ error]"
    using lintEach_keeps(6,7,9)[of docs ?s1] s2 c(5) by simp_all
  have "step (SanityProbe (SpawnError error)) ?s0
      = s2\<lparr>onDidClose := True, subscriptions := subscriptions s2 @ [DiagnosticCollection]\<rparr>"
    using c assms(1) s2 by (simp add: checkSanity_def sanityThen_def falsy_def Let_def)
  then show ?thesis using k by simp
qed

section \<open>Linting switched off\<close>

text \<open>
  C5 as stated: with \<open>rpmspec.lint\<close> off, a lint trigger clears the diagnostics of all open
  documents. It fails: \<open>lint\<close> deletes the entry of the document it is called for and of no
  other. After a save of \<open>pkg.spec\<close>, the open document \<open>lib.spec\<close> keeps its diagnostic.
\<close>

theorem lint_off_keeps_other_documents:
  "\<not> getLint (configuration bothLintedThenOff)
   \<and> libSpec \<in> set (textDocuments bothLintedThenOff)
   \<and> diagnostics (step (DidSave pkgSpec) bothLintedThenOff) (uri pkgSpec) = None
   \<and> diagnostics (step (DidSave pkgSpec) bothLintedThenOff) (uri libSpec)
       = Some [\<lparr>rangeLine = 0, message = ''macro undefined'', severity = Error\<rparr>]"
  by code_simp

text \<open>
  C5 amended: with \<open>rpmspec.lint\<close> off, \<open>lint\<close> spawns nothing and starts no run, on an open
  and on a save event as well; it leaves the diagnostics of every other document as they
  are, and it deletes the diagnostics of its own document when that document is an
  \<open>rpm-spec\<close> file that is not untitled.
\<close>

theorem lint_off_clears_own_document:
  assumes "\<not> getLint (configuration st)"
  shows "spawned (lint d st) = spawned st \<and> runs (lint d st) = runs st
    \<and> (\<forall>u. u \<noteq> uri d \<longrightarrow> diagnostics (lint d st) u = diagnostics st u)
    \<and> (languageId d = MODE_language \<and> scheme (uri d) = MODE_scheme \<and> \<not> isUntitled d
         \<longrightarrow> diagnostics (lint d st) (uri d) = None)
    \<and> spawned (step (DidOpen d) st) = spawned st
    \<and> spawned (step (DidSave d) st) = spawned st"
  using assms by (simp add: lint_def lintCall_def Let_def)

theorem lint_off_clears_own_document_witness:
  "spawned (lint pkgSpec bothLintedThenOff) = spawned bothLintedThenOff
    \<and> runs (lint pkgSpec bothLintedThenOff) = runs bothLintedThenOff
    \<and> diagnostics (lint pkgSpec bothLintedThenOff) (uri libSpec)
        = diagnostics bothLintedThenOff (uri libSpec)
    \<and> diagnostics (lint pkgSpec bothLintedThenOff) (uri pkgSpec) = None
    \<and> spawned (step (DidOpen pkgSpec) bothLintedThenOff) = spawned bothLintedThenOff
    \<and> spawned (step (DidSave pkgSpec) bothLintedThenOff) = spawned bothLintedThenOff"
proof -
  have off: "\<not> getLint (configuration bothLintedThenOff)" by code_simp
  have other: "uri libSpec \<noteq> uri pkgSpec" by code_simp
  have own: "languageId pkgSpec = MODE_language \<and> scheme (uri pkgSpec) = MODE_scheme
      \<and> \<not> isUntitled pkgSpec" by code_simp
  show ?thesis using lint_off_clears_own_document[OF off, of pkgSpec] other own by blast
qed

section \<open>A linter that cannot be spawned\<close>




section \<open>One run: lines in order, one publication at the close\<close>

lemma onLine_append: "onLine d re l a = a @ onLine d re l []"
  by (simp add: onLine_def split: option.split)

lemma foldl_onLine:
  "foldl (\<lambda>a l. onLine d re l a) a ls = a @ concat (map (\<lambda>l. onLine d re l []) ls)"
proof (induction ls arbitrary: a)
  case Nil
  show ?case by simp
next
  case (Cons l ls)
  show ?case using onLine_append[of d re l a] by (simp add: Cons.IH)
qed

lemma readerLines:
  assumes "rid < length (runs st)"
  shows "run (map (ReaderLine rid) ls) st =
    st\<lparr>runs := (runs st)[rid := (runs st ! rid)\<lparr>runArray :=
       foldl (\<lambda>a l. onLine (runDocument (runs st ! rid)) (runPattern (runs st ! rid)) l a)
         (runArray (runs st ! rid)) ls\<rparr>]\<rparr>"
  using assms
proof (induction ls arbitrary: st)
  case Nil
  then show ?case by (simp add: run_def)
next
  case (Cons l ls)
  let ?st1 = "readerLine rid l st"
  have len: "rid < length (runs ?st1)" using Cons.prems by (simp add: readerLine_def Let_def)
  have "run (map (ReaderLine rid) (l # ls)) st = run (map (ReaderLine rid) ls) ?st1"
    by (simp add: run_def)
  also note Cons.IH[OF len]
  finally show ?case using Cons.prems by (simp add: readerLine_def Let_def)
qed

text \<open>
  C7 as stated: within one lint invocation the diagnostics of the document are written
  only once, after the output stream has closed. It fails for an invocation whose process
  reports a spawn error: the \<open>error\<close> listener writes the empty list, and the \<open>close\<close>
  listener of the same run writes again.
\<close>

theorem error_and_close_both_publish:
  "setCalls (run [LinterError 0 ''ENOENT'', ReaderClose 0] (lint pkgSpec freshSession))
     = [(uri pkgSpec, []), (uri pkgSpec, [])]"
  by code_simp

text \<open>
  C7 amended: for the run that a lint invocation starts, as long as its process reports no
  error, the line events leave the diagnostics and the log of \<open>diagnostics.set\<close>
  untouched, however many of them have arrived; the close event then publishes, in one
  call, the records of the matching lines in the order of their arrival, none dropped,
  merged or reordered.
\<close>

theorem run_without_error_publishes_once_in_order:
  assumes "languageId d = MODE_language" "scheme (uri d) = MODE_scheme" "\<not> isUntitled d"
    "getLint (configuration st)"
    "\<not> spawnRaises (getRpmlintPath (configuration st)) [fsPath (uri d)]"
  shows "\<exists>re. diagnosticPattern (fsPath (uri d)) = Some re
    \<and> (\<forall>k \<le> length ls.
          diagnostics (run (map (ReaderLine (length (runs st))) (take k ls)) (lint d st))
            = diagnostics st
        \<and> setCalls (run (map (ReaderLine (length (runs st))) (take k ls)) (lint d st))
            = setCalls st)
    \<and> diagnostics
         (run (map (ReaderLine (length (runs st))) ls @ [ReaderClose (length (runs st))]) (lint d st))
        = (diagnostics st)(uri d \<mapsto> concat (map (\<lambda>l. onLine d re l []) ls))
    \<and> setCalls
         (run (map (ReaderLine (length (runs st))) ls @ [ReaderClose (length (runs st))]) (lint d st))
        = setCalls st @ [(uri d, concat (map (\<lambda>l. onLine d re l []) ls))]"
proof -
  let ?re = "Seq Bol (foldr Seq (map Lit (fsPath (uri d))) patternTail)"
  let ?rid = "length (runs st)"
  have len: "?rid < length (runs (lint d st))"
    by (simp add: lint_enabled[OF assms])
  have pre: "diagnostics (run (map (ReaderLine ?rid) xs) (lint d st)) = diagnostics st
      \<and> setCalls (run (map (ReaderLine ?rid) xs) (lint d st)) = setCalls st" for xs
    by (simp add: readerLines[OF len]) (simp add: lint_enabled[OF assms])
  have fin: "run (map (ReaderLine ?rid) ls @ [ReaderClose ?rid]) (lint d st)
      = readerClose ?rid (run (map (ReaderLine ?rid) ls) (lint d st))"
    by (simp add: run_def)
  have "diagnostics (run (map (ReaderLine ?rid) ls @ [ReaderClose ?rid]) (lint d st))
        = (diagnostics st)(uri d \<mapsto> concat (map (\<lambda>l. onLine d ?re l []) ls))
    \<and> setCalls (run (map (ReaderLine ?rid) ls @ [ReaderClose ?rid]) (lint d st))
        = setCalls st @ [(uri d, concat (map (\<lambda>l. onLine d ?re l []) ls))]"
    unfolding fin readerLines[OF len]
    by (simp add: readerClose_def Let_def lint_enabled[OF assms] foldl_onLine)
  with pre diagnosticPattern_eq show ?thesis by blast
qed

theorem run_without_error_publishes_once_in_order_witness:
  "\<exists>re. diagnosticPattern (fsPath (uri pkgSpec)) = Some re
    \<and> (\<forall>k \<le> length exampleOutput.
          diagnostics (run (map (ReaderLine (length (runs freshSession))) (take k exampleOutput))
                         (lint pkgSpec freshSession))
            = diagnostics freshSession
        \<and> setCalls (run (map (ReaderLine (length (runs freshSession))) (take k exampleOutput))
                       (lint pkgSpec freshSession))
            = setCalls freshSession)
    \<and> diagnostics
         (run (map (ReaderLine (length (runs freshSession))) exampleOutput
                 @ [ReaderClose (length (runs freshSession))]) (lint pkgSpec freshSession))
        = (diagnostics freshSession)
            (uri pkgSpec \<mapsto> concat (map (\<lambda>l. onLine pkgSpec re l []) exampleOutput))
    \<and> setCalls
         (run (map (ReaderLine (length (runs freshSession))) exampleOutput
                 @ [ReaderClose (length (runs freshSession))]) (lint pkgSpec freshSession))
        = setCalls freshSession
            @ [(uri pkgSpec, concat (map (\<lambda>l. onLine pkgSpec re l []) exampleOutput))]"
  by (rule run_without_error_publishes_once_in_order; code_simp)

text \<open>
  The scenario of the specification: a document of five lines, three lines of output, two
  diagnostics published at the close.
\<close>

lemma scenario_two_diagnostics:
  "diagnostics (run (map (ReaderLine 0) exampleOutput @ [ReaderClose 0]) (lint pkgSpec freshSession))
     (uri pkgSpec)
   = Some [\<lparr>rangeLine = 2, message = ''trailing whitespace'', severity = Warning\<rparr>,
           \<lparr>rangeLine = 0, message = ''macro undefined'', severity = Error\<rparr>]"
  by code_simp

section \<open>The language server: probe, start and stop\<close>

text \<open>
  C8: the probe of the language server counts every exit, whatever the code, as available
  and a spawn error as unavailable. On a spawn error the callback returns at once: the
  state is the one before, with the promise settled; no warning, no client, no
  subscription. On an exit a client exists afterwards. The sanity probe is stricter: its
  gate is \<open>!exitCode\<close>, which holds for \<open>null\<close> and \<open>0\<close> only, and after any other exit
  code its callback changes nothing.
\<close>

theorem lsp_probe_any_exit_available:
  "checkLspAvailable (Exit code) \<and> \<not> checkLspAvailable (SpawnError error)
   \<and> step (LspProbe (SpawnError error)) (st\<lparr>lspPending := True\<rparr>) = st\<lparr>lspPending := False\<rparr>
   \<and> lspClient (step (LspProbe (Exit code)) (st\<lparr>lspPending := True\<rparr>)) \<noteq> None
   \<and> (falsy code \<longleftrightarrow> code = None \<or> code = Some 0)
   \<and> (\<not> falsy code \<longrightarrow>
        step (SanityProbe (Exit code)) (st\<lparr>sanityPending := True\<rparr>) = st\<lparr>sanityPending := False\<rparr>)"
  by (simp add: checkLspAvailable_def lspThen_def Let_def falsy_def checkSanity_def sanityThen_def
      split: option.split)

theorem lsp_probe_any_exit_available_witness:
  "checkLspAvailable (Exit (Some 2)) \<and> \<not> checkLspAvailable (SpawnError ''ENOENT'')
   \<and> step (LspProbe (SpawnError ''ENOENT'')) (freshSession\<lparr>lspPending := True\<rparr>)
       = freshSession\<lparr>lspPending := False\<rparr>
   \<and> lspClient (step (LspProbe (Exit (Some 2))) (freshSession\<lparr>lspPending := True\<rparr>)) \<noteq> None
   \<and> \<not> falsy (Some 2)
   \<and> step (SanityProbe (Exit (Some 2))) (freshSession\<lparr>sanityPending := True\<rparr>)
       = freshSession\<lparr>sanityPending := False\<rparr>"
proof -
  have strict: "\<not> falsy (Some 2)" by code_simp
  show ?thesis
    using lsp_probe_any_exit_available[of "Some 2" "''ENOENT''" freshSession] strict by blast
qed









section \<open>The matcher on the pieces of the pattern\<close>

text \<open>
  A literal prefix either is there or the match fails; a pattern that starts with \<open>^\<close>
  can only match at index 0.
\<close>

lemma adv_simps [simp]:
  "pos (adv k st) = pos st + k" "rest (adv k st) = drop k (rest st)" "caps (adv k st) = caps st"
  "adv 0 st = st" "adv k (adv j st) = adv (j + k) st"
  by (simp_all add: adv_def add.commute add.left_commute)

lemma charMatch_Cons:
  "rest st = c # cs \<Longrightarrow> charMatch p st = (if p c then [adv 1 st] else [])"
  by (simp add: charMatch_def adv_def)

lemma charMatch_Nil: "rest st = [] \<Longrightarrow> charMatch p st = []"
  by (simp add: charMatch_def)

lemma rmatch_lits:
  "rmatch (foldr Seq (map Lit p) r) st =
     (if take (length p) (rest st) = p then rmatch r (adv (length p) st) else [])"
proof (induction p arbitrary: st)
  case Nil
  show ?case by simp
next
  case (Cons c p)
  show ?case
  proof (cases "rest st")
    case Nil
    then show ?thesis by (simp add: charMatch_Nil)
  next
    case (Cons x xs)
    then show ?thesis by (simp add: charMatch_Cons Cons.IH)
  qed
qed

lemma execFrom_Bol: "0 < i \<Longrightarrow> execFrom (Seq Bol r) i s = None"
  by (induction s arbitrary: i) simp_all

lemma clearCaps_nogroups: "groupNames C = [] \<Longrightarrow> clearCaps C st = st"
  by (simp add: clearCaps_def)

declare rmatch.simps [simp del]

text \<open>
  A repeated character class tries the longest run first and then gives back one
  character at a time: its results are the states after \<open>n, n - 1, \<dots>\<close> characters, where
  \<open>n\<close> is the length of the longest run. \<open>first_hit\<close> picks the longest of them
  that the rest of the pattern accepts.
\<close>

lemma rev_upt_shift0: "rev [0..<Suc n] = map Suc (rev [0..<n]) @ [0]"
proof -
  have "[0..<Suc n] = 0 # map Suc [0..<n]"
    unfolding map_Suc_upt by (rule upt_conv_Cons) simp
  then show ?thesis by (simp only: rev.simps rev_map)
qed

lemma rev_upt_shift1: "rev [1..<Suc n] = map Suc (rev [0..<n])"
  unfolding One_nat_def map_Suc_upt[symmetric] rev_map ..

lemma upt_split3:
  assumes "a \<le> j" "j \<le> N"
  shows "[a..<Suc N] = [a..<j] @ j # [Suc j..<Suc N]"
proof -
  have "[a..<j + (Suc N - j)] = [a..<j] @ [j..<j + (Suc N - j)]"
    by (rule upt_add_eq_append[OF assms(1)])
  moreover have "j + (Suc N - j) = Suc N" using assms(2) by simp
  moreover have "[j..<Suc N] = j # [Suc j..<Suc N]"
    by (rule upt_conv_Cons) (use assms(2) in simp)
  ultimately show ?thesis by simp
qed

lemma rep0_class:
  assumes C: "\<And>s. rmatch C s = charMatch p s" and g: "groupNames C = []"
  shows "rmatch (Rep 0 C) st = map (\<lambda>k. adv k st) (rev [0..<Suc (length (takeWhile p (rest st)))])"
proof (induction "rest st" arbitrary: st)
  case Nil
  then show ?case
    by (simp add: rmatch.simps(11) C clearCaps_nogroups[OF g] charMatch_Nil[OF Nil[symmetric]])
next
  case (Cons c cs)
  note r = Cons.hyps(2)[symmetric]
  show ?case
  proof (cases "p c")
    case False
    then show ?thesis
      by (simp add: rmatch.simps(11) C clearCaps_nogroups[OF g] charMatch_Cons[OF r] r)
  next
    case True
    have cs: "cs = rest (adv 1 st)" by (simp add: r)
    have "rmatch (Rep 0 C) st = rmatch (Rep 0 C) (adv 1 st) @ [st]"
      using True by (simp add: rmatch.simps(11)[of C st] C clearCaps_nogroups[OF g] charMatch_Cons[OF r] r)
    also have "\<dots> = map (\<lambda>k. adv (Suc k) st) (rev [0..<Suc (length (takeWhile p cs))]) @ [adv 0 st]"
      unfolding Cons.hyps(1)[OF cs] by (simp add: r del: upt_Suc)
    also have "\<dots> = map (\<lambda>k. adv k st) (rev [0..<Suc (Suc (length (takeWhile p cs)))])"
      unfolding rev_upt_shift0[of "Suc (length (takeWhile p cs))"] by (simp add: comp_def del: upt_Suc)
    finally show ?thesis using True by (simp add: r del: upt_Suc)
  qed
qed

lemma rep1_class:
  assumes C: "\<And>s. rmatch C s = charMatch p s" and g: "groupNames C = []"
  shows "rmatch (Rep (Suc 0) C) st = map (\<lambda>k. adv k st) (rev [Suc 0..<Suc (length (takeWhile p (rest st)))])"
proof (cases "rest st")
  case Nil
  then show ?thesis by (simp add: rmatch.simps(10) C clearCaps_nogroups[OF g] charMatch_Nil)
next
  case (Cons c cs)
  show ?thesis
  proof (cases "p c")
    case False
    then show ?thesis
      by (simp add: rmatch.simps(10) C clearCaps_nogroups[OF g] charMatch_Cons[OF Cons] Cons)
  next
    case True
    have "rmatch (Rep (Suc 0) C) st = rmatch (Rep 0 C) (adv 1 st)"
      using True by (simp add: rmatch.simps(10) C clearCaps_nogroups[OF g] charMatch_Cons[OF Cons])
    also have "\<dots> = map (\<lambda>k. adv (Suc k) st) (rev [0..<Suc (length (takeWhile p cs))])"
      unfolding rep0_class[OF C g] by (simp add: Cons del: upt_Suc)
    also have "\<dots> = map (\<lambda>k. adv k st) (rev [Suc 0..<Suc (Suc (length (takeWhile p cs)))])"
      unfolding rev_upt_shift1[unfolded One_nat_def] by (simp add: comp_def del: upt_Suc)
    finally show ?thesis using True by (simp add: Cons del: upt_Suc)
  qed
qed

lemma first_hit:
  assumes "a \<le> j" "j \<le> N" "\<forall>k. j < k \<and> k \<le> N \<longrightarrow> f k = []" "f j = x # ys"
  shows "\<exists>zs. concat (map f (rev [a..<Suc N])) = x # zs"
proof -
  have eq: "concat (map f (rev [a..<Suc N]))
      = concat (map f (rev [Suc j..<Suc N])) @ f j @ concat (map f (rev [a..<j]))"
    unfolding upt_split3[OF assms(1,2)] by (simp del: upt_Suc)
  have e: "concat (map f (rev [Suc j..<Suc N])) = []"
    using assms(3) by (auto simp del: upt_Suc)
  show ?thesis unfolding eq e assms(4) by simp
qed

lemma Digit_cls: "rmatch Digit s = charMatch isDigit s"
  by (simp add: rmatch.simps)

lemma Space_cls: "rmatch Space s = charMatch isSpace s"
  by (simp add: rmatch.simps)

lemma NonSpace_cls: "rmatch NonSpace s = charMatch (\<lambda>x. \<not> isSpace x) s"
  by (simp add: rmatch.simps)

lemma Dot_cls: "rmatch Dot s = charMatch (\<lambda>x. \<not> isLineTerminator x) s"
  by (simp add: rmatch.simps)

lemma takeWhile_all:
  "\<forall>c\<in>set xs. p c \<Longrightarrow> ys = [] \<or> \<not> p (hd ys) \<Longrightarrow> takeWhile p (xs @ ys) = xs"
  by (cases ys) (simp_all add: takeWhile_append2)

lemma seq_first:
  assumes "rmatch r1 st = y # ys" "rmatch r2 y = x # xs"
  shows "\<exists>zs. rmatch (Seq r1 r2) st = x # zs"
  using assms by (simp add: rmatch.simps)

lemma rmatch_body:
  assumes "rest st = msg" "msg \<noteq> []" "\<forall>c\<in>set msg. \<not> isLineTerminator c"
  shows "\<exists>zs. rmatch bodyEol st
     = \<lparr>pos = pos st + length msg, rest = [], caps = (''body'', msg) # caps st\<rparr> # zs"
proof -
  let ?g = "\<lambda>k. (adv k st)\<lparr>caps := (''body'', take k (rest st)) # caps st\<rparr>"
  have tw: "takeWhile (\<lambda>x. \<not> isLineTerminator x) (rest st) = msg"
    using assms(1,3) by simp
  have grp: "rmatch (Group ''body'' (Plus Dot)) st = map ?g (rev [Suc 0..<Suc (length msg)])"
    by (simp add: rmatch.simps(12) rep1_class[OF Dot_cls] tw del: upt_Suc)
  have "rmatch bodyEol st = concat (map (\<lambda>k. rmatch Eol (?g k)) (rev [Suc 0..<Suc (length msg)]))"
    unfolding bodyEol_def rmatch.simps(8) grp by (simp add: comp_def del: upt_Suc)
  moreover have "rmatch Eol (?g (length msg))
      = [\<lparr>pos = pos st + length msg, rest = [], caps = (''body'', msg) # caps st\<rparr>]"
    using assms(1) by (simp add: rmatch.simps adv_def)
  moreover have "Suc 0 \<le> length msg" using assms(2) by (cases msg) simp_all
  ultimately show ?thesis
    using first_hit[of "Suc 0" "length msg" "length msg" "\<lambda>k. rmatch Eol (?g k)"] by simp
qed

lemma patternTail_parts: "patternTail = Seq (Lit (CHR '':'')) (Seq optLine fromSpace)"
  by (simp add: patternTail_def optLine_def fromSpace_def fromSeverity_def afterSeverity_def
      bodyEol_def)

text \<open>
  The same for a repeated group of one character: after each iteration the group holds the
  character consumed last, and the earlier binding is gone.
\<close>

lemma grpAdv_0: "grpAdv n 0 st = st"
  by (simp add: grpAdv_def)

lemma group_step:
  assumes C: "\<And>s. rmatch C s = charMatch p s" and g: "groupNames C = []"
    and r: "rest st = c # cs" and p: "p c"
  shows "rmatch (Group n C) (clearCaps (Group n C) st) = [grpAdv n (Suc 0) st]"
  by (simp add: rmatch.simps(12) C g charMatch_Cons[of _ c cs] clearCaps_def r p grpAdv_def adv_def)

lemma group_stop:
  assumes C: "\<And>s. rmatch C s = charMatch p s" and r: "rest st = [] \<or> \<not> p (hd (rest st))"
  shows "rmatch (Group n C) (clearCaps (Group n C) st) = []"
proof (cases "rest st")
  case Nil
  then show ?thesis by (simp add: rmatch.simps(12) C charMatch_Nil clearCaps_def)
next
  case (Cons c cs)
  then show ?thesis using r
    by (simp add: rmatch.simps(12) C charMatch_Cons[of _ c cs] clearCaps_def)
qed

lemma grpAdv_shift:
  assumes "rest st = c # cs"
  shows "grpAdv n k (grpAdv n (Suc 0) st) = grpAdv n (Suc k) st"
  using assms by (cases k) (simp_all add: grpAdv_def)

lemma rep0_group:
  assumes C: "\<And>s. rmatch C s = charMatch p s" and g: "groupNames C = []"
  shows "rmatch (Rep 0 (Group n C)) st
     = map (\<lambda>k. grpAdv n k st) (rev [0..<Suc (length (takeWhile p (rest st)))])"
proof (induction "rest st" arbitrary: st)
  case Nil
  then show ?case
    by (simp add: rmatch.simps(11)[of "Group n C"] group_stop[OF C] grpAdv_0)
next
  case (Cons c cs)
  note r = Cons.hyps(2)[symmetric]
  show ?case
  proof (cases "p c")
    case False
    then show ?thesis
      by (simp add: rmatch.simps(11)[of "Group n C"] group_stop[OF C] r grpAdv_0)
  next
    case True
    let ?s1 = "grpAdv n (Suc 0) st"
    have cs: "cs = rest ?s1" by (simp add: r grpAdv_def)
    have "rmatch (Rep 0 (Group n C)) st = rmatch (Rep 0 (Group n C)) ?s1 @ [st]"
      by (simp add: rmatch.simps(11)[of "Group n C" st] group_step[OF C g r True] cs[symmetric] r)
    also have "\<dots> = map (\<lambda>k. grpAdv n (Suc k) st) (rev [0..<Suc (length (takeWhile p cs))])
         @ [grpAdv n 0 st]"
      unfolding Cons.hyps(1)[OF cs] cs[symmetric] by (simp add: grpAdv_shift[OF r] grpAdv_0 del: upt_Suc)
    also have "\<dots> = map (\<lambda>k. grpAdv n k st) (rev [0..<Suc (Suc (length (takeWhile p cs)))])"
      unfolding rev_upt_shift0[of "Suc (length (takeWhile p cs))"] by (simp add: comp_def del: upt_Suc)
    finally show ?thesis using True by (simp add: r del: upt_Suc)
  qed
qed

lemma rep1_group:
  assumes C: "\<And>s. rmatch C s = charMatch p s" and g: "groupNames C = []"
  shows "rmatch (Rep (Suc 0) (Group n C)) st
     = map (\<lambda>k. grpAdv n k st) (rev [Suc 0..<Suc (length (takeWhile p (rest st)))])"
proof (cases "rest st")
  case Nil
  then show ?thesis by (simp add: rmatch.simps(10)[of _ "Group n C"] group_stop[OF C])
next
  case (Cons c cs)
  show ?thesis
  proof (cases "p c")
    case False
    then show ?thesis by (simp add: rmatch.simps(10)[of _ "Group n C"] group_stop[OF C] Cons)
  next
    case True
    let ?s1 = "grpAdv n (Suc 0) st"
    have cs: "rest ?s1 = cs" by (simp add: Cons grpAdv_def)
    have "rmatch (Rep (Suc 0) (Group n C)) st = rmatch (Rep 0 (Group n C)) ?s1"
      by (simp add: rmatch.simps(10)[of _ "Group n C"] group_step[OF C g Cons True])
    also have "\<dots> = map (\<lambda>k. grpAdv n (Suc k) st) (rev [0..<Suc (length (takeWhile p cs))])"
      unfolding rep0_group[OF C g] cs by (simp add: grpAdv_shift[OF Cons] del: upt_Suc)
    also have "\<dots> = map (\<lambda>k. grpAdv n k st) (rev [Suc 0..<Suc (Suc (length (takeWhile p cs)))])"
      unfolding rev_upt_shift1[unfolded One_nat_def] by (simp add: comp_def del: upt_Suc)
    finally show ?thesis using True by (simp add: Cons del: upt_Suc)
  qed
qed

text \<open>
  From the right: the body up to the end of the line, the colon before it, the severity
  token (the one place where the matcher has to back off), the white space before it, the
  optional line number, and the whole pattern.
\<close>

lemma star_space_first:
  assumes "rest st = ws @ more_input" "\<forall>c\<in>set ws. isSpace c" "more_input = [] \<or> \<not> isSpace (hd more_input)"
  shows "\<exists>ys. rmatch (Star Space) st = adv (length ws) st # ys"
  by (simp add: rep0_class[OF Space_cls] assms(1) takeWhile_all[OF assms(2,3)])

lemma afterSeverity_fail:
  assumes "rest st = [] \<or> hd (rest st) \<noteq> CHR '':''"
  shows "rmatch afterSeverity st = []"
proof (cases "rest st")
  case Nil
  then show ?thesis by (simp add: afterSeverity_def rmatch.simps(3,8) charMatch_Nil)
next
  case (Cons c cs)
  then show ?thesis using assms
    by (simp add: afterSeverity_def rmatch.simps(3,8) charMatch_Cons[of _ c cs])
qed

lemma afterSeverity_ok:
  assumes r: "rest st = CHR '':'' # ws @ msg" and ws: "\<forall>c\<in>set ws. isSpace c"
    and msg: "msg \<noteq> []" "\<not> isSpace (hd msg)" "\<forall>c\<in>set msg. \<not> isLineTerminator c"
  shows "\<exists>zs. rmatch afterSeverity st
     = \<lparr>pos = pos st + 1 + length ws + length msg, rest = [],
        caps = (''body'', msg) # caps st\<rparr> # zs"
proof -
  let ?s1 = "adv 1 st"
  let ?s2 = "adv (length ws) ?s1"
  have colon: "rmatch (Lit (CHR '':'')) st = [?s1]"
    by (simp add: rmatch.simps(3) charMatch_Cons[OF r])
  have r1: "rest ?s1 = ws @ msg" by (simp add: r)
  obtain ys where sp: "rmatch (Star Space) ?s1 = ?s2 # ys"
    using star_space_first[OF r1 ws] msg(2) by blast
  have r2: "rest ?s2 = msg" by (simp add: r)
  obtain zs where b: "rmatch bodyEol ?s2
      = \<lparr>pos = pos ?s2 + length msg, rest = [], caps = (''body'', msg) # caps ?s2\<rparr> # zs"
    using rmatch_body[OF r2 msg(1,3)] by blast
  obtain zs' where "rmatch (Seq (Star Space) bodyEol) ?s1
      = \<lparr>pos = pos ?s2 + length msg, rest = [], caps = (''body'', msg) # caps ?s2\<rparr> # zs'"
    using seq_first[OF sp b] by blast
  then show ?thesis
    by (simp add: afterSeverity_def rmatch.simps(8)[of "Lit _"] colon)
qed

lemma colon_not_space: "\<not> isSpace (CHR '':'')"
  by (simp add: isSpace_def)

lemma no_colon_ahead:
  assumes ws: "\<forall>c\<in>set ws. isSpace c"
    and nocolon: "ws = [] \<longrightarrow> CHR '':'' \<notin> set (takeWhile (\<lambda>c. \<not> isSpace c) msg)"
    and i: "i \<le> length (if ws = [] then takeWhile (\<lambda>c. \<not> isSpace c) msg else [])"
  shows "drop i (ws @ msg) = [] \<or> hd (drop i (ws @ msg)) \<noteq> CHR '':''"
proof (cases ws)
  case (Cons w ws')
  then have i0: "i = 0" using i by simp
  have "isSpace w" using ws Cons by simp
  then have "w \<noteq> CHR '':''" using colon_not_space by blast
  then show ?thesis unfolding i0 Cons by simp
next
  case Nil
  let ?p = "\<lambda>c. \<not> isSpace c"
  have il: "i \<le> length (takeWhile ?p msg)" using i Nil by simp
  show ?thesis
  proof (cases "i < length (takeWhile ?p msg)")
    case True
    have im: "i < length msg"
      using True length_takeWhile_le[of ?p msg] by linarith
    have "takeWhile ?p msg ! i = msg ! i" using True by (rule takeWhile_nth)
    moreover have "takeWhile ?p msg ! i \<in> set (takeWhile ?p msg)" using True by (rule nth_mem)
    ultimately have "msg ! i \<noteq> CHR '':''" using nocolon Nil by metis
    moreover have "hd (drop i msg) = msg ! i" using im by (rule hd_drop_conv_nth)
    ultimately show ?thesis unfolding Nil by simp
  next
    case False
    then have ie: "i = length (takeWhile ?p msg)" using il by linarith
    have d: "drop i msg = dropWhile ?p msg" unfolding ie by (rule dropWhile_eq_drop[symmetric])
    show ?thesis
    proof (cases "dropWhile ?p msg")
      case Nil': Nil
      then show ?thesis unfolding Nil using d by simp
    next
      case (Cons x xs)
      have "\<not> ?p (hd (dropWhile ?p msg))" by (rule hd_dropWhile) (simp add: Cons)
      then have "isSpace x" by (simp add: Cons)
      then have "x \<noteq> CHR '':''" using colon_not_space by blast
      then show ?thesis unfolding Nil using d Cons by simp
    qed
  qed
qed

lemma fromSeverity_ok:
  assumes r: "rest st = token @ CHR '':'' # ws @ msg"
    and token: "token \<noteq> []" "\<forall>c\<in>set token. \<not> isSpace c"
    and ws: "\<forall>c\<in>set ws. isSpace c"
    and msg: "msg \<noteq> []" "\<not> isSpace (hd msg)" "\<forall>c\<in>set msg. \<not> isLineTerminator c"
    and nocolon: "ws = [] \<longrightarrow> CHR '':'' \<notin> set (takeWhile (\<lambda>c. \<not> isSpace c) msg)"
  shows "\<exists>zs. rmatch fromSeverity st
     = \<lparr>pos = pos st + length (rest st), rest = [],
        caps = (''body'', msg) # (''severity'', [last token])
               # filter (\<lambda>(m, v). m \<noteq> ''severity'') (caps st)\<rparr> # zs"
proof -
  let ?p = "\<lambda>c. \<not> isSpace c"
  let ?more = "if ws = [] then takeWhile ?p msg else []"
  let ?N = "length (takeWhile ?p (rest st))"
  let ?j = "length token"
  let ?f = "\<lambda>k. rmatch afterSeverity (grpAdv ''severity'' k st)"
  have unfold: "rmatch fromSeverity st = concat (map ?f (rev [Suc 0..<Suc ?N]))"
    by (simp add: fromSeverity_def rmatch.simps(8)[of "Rep _ _"] rep1_group[OF NonSpace_cls]
        comp_def del: upt_Suc)
  have tw: "takeWhile ?p (rest st) = token @ CHR '':'' # ?more"
  proof (cases ws)
    case Nil
    then show ?thesis using token(2) by (simp add: r takeWhile_append2 colon_not_space)
  next
    case (Cons w ws')
    then have "isSpace w" using ws by simp
    then show ?thesis using token(2) Cons by (simp add: r takeWhile_append2 colon_not_space)
  qed
  have N: "?N = Suc (?j + length ?more)" unfolding tw by simp
  have j1: "Suc 0 \<le> ?j" using token(1) by (cases token) simp_all
  have jN: "?j \<le> ?N" unfolding N by simp
  have fail: "\<forall>k. ?j < k \<and> k \<le> ?N \<longrightarrow> ?f k = []"
  proof (intro allI impI)
    fix k assume k: "?j < k \<and> k \<le> ?N"
    then obtain i where i: "k = Suc (?j + i)" using less_imp_Suc_add by blast
    have il: "i \<le> length ?more" using k unfolding N i by simp
    have "drop k (rest st) = drop i (ws @ msg)" unfolding i r by simp
    then have rk: "rest (grpAdv ''severity'' k st) = drop i (ws @ msg)"
      unfolding i by (simp add: grpAdv_def)
    show "?f k = []"
      by (rule afterSeverity_fail) (use no_colon_ahead[OF ws nocolon il] rk in simp)
  qed
  let ?sj = "grpAdv ''severity'' ?j st"
  have jpos: "?j \<noteq> 0" using token(1) by simp
  have "drop ?j (rest st) = CHR '':'' # ws @ msg" unfolding r by simp
  then have rj: "rest ?sj = CHR '':'' # ws @ msg" using jpos by (simp add: grpAdv_def)
  have lastc: "rest st ! (?j - 1) = last token"
    unfolding r using token(1) by (simp add: nth_append last_conv_nth)
  have capsj: "caps ?sj = (''severity'', [last token])
       # filter (\<lambda>(m, v). m \<noteq> ''severity'') (caps st)"
    using jpos lastc by (simp add: grpAdv_def)
  have posj: "pos ?sj + 1 + length ws + length msg = pos st + length (rest st)"
    using jpos unfolding r by (simp add: grpAdv_def)
  obtain zs where hit: "?f ?j
      = \<lparr>pos = pos ?sj + 1 + length ws + length msg, rest = [],
         caps = (''body'', msg) # caps ?sj\<rparr> # zs"
    using afterSeverity_ok[OF rj ws msg] by blast
  obtain zs' where "concat (map ?f (rev [Suc 0..<Suc ?N]))
      = \<lparr>pos = pos ?sj + 1 + length ws + length msg, rest = [],
         caps = (''body'', msg) # caps ?sj\<rparr> # zs'"
    using first_hit[OF j1 jN fail hit] by blast
  then show ?thesis unfolding unfold capsj posj by blast
qed

lemma fromSpace_ok:
  assumes r: "rest st = ws1 @ token @ CHR '':'' # ws2 @ msg"
    and ws1: "\<forall>c\<in>set ws1. isSpace c"
    and token: "token \<noteq> []" "\<forall>c\<in>set token. \<not> isSpace c"
    and ws2: "\<forall>c\<in>set ws2. isSpace c"
    and msg: "msg \<noteq> []" "\<not> isSpace (hd msg)" "\<forall>c\<in>set msg. \<not> isLineTerminator c"
    and nocolon: "ws2 = [] \<longrightarrow> CHR '':'' \<notin> set (takeWhile (\<lambda>c. \<not> isSpace c) msg)"
  shows "\<exists>zs. rmatch fromSpace st
     = \<lparr>pos = pos st + length (rest st), rest = [],
        caps = (''body'', msg) # (''severity'', [last token])
               # filter (\<lambda>(m, v). m \<noteq> ''severity'') (caps st)\<rparr> # zs"
proof -
  let ?s1 = "adv (length ws1) st"
  have hdtok: "\<not> isSpace (hd (token @ CHR '':'' # ws2 @ msg))"
    using token by (cases token) simp_all
  obtain ys where sp: "rmatch (Star Space) st = ?s1 # ys"
    using star_space_first[OF r ws1] hdtok by blast
  have r1: "rest ?s1 = token @ CHR '':'' # ws2 @ msg" by (simp add: r)
  obtain zs where sev: "rmatch fromSeverity ?s1
     = \<lparr>pos = pos ?s1 + length (rest ?s1), rest = [],
        caps = (''body'', msg) # (''severity'', [last token])
               # filter (\<lambda>(m, v). m \<noteq> ''severity'') (caps ?s1)\<rparr> # zs"
    using fromSeverity_ok[OF r1 token ws2 msg nocolon] by blast
  have p: "pos ?s1 + length (rest ?s1) = pos st + length (rest st)" by (simp add: r)
  show ?thesis
    using seq_first[OF sp sev] unfolding fromSpace_def p by simp
qed

lemma digit_group:
  "rmatch (Group ''line'' (Plus Digit)) st
     = map (\<lambda>k. (adv k st)\<lparr>caps := (''line'', take k (rest st)) # caps st\<rparr>)
         (rev [Suc 0..<Suc (length (takeWhile isDigit (rest st)))])"
  by (simp add: rmatch.simps(12) rep1_class[OF Digit_cls] del: upt_Suc)

lemma colon_not_digit: "\<not> isDigit (CHR '':'')"
  by (simp add: isDigit_def)

lemma clearCaps_empty: "caps st = [] \<Longrightarrow> clearCaps r st = st"
  by (cases st) (simp add: clearCaps_def)

lemma optLine_some:
  assumes r: "rest st = ds @ CHR '':'' # input" and ds: "ds \<noteq> []" "\<forall>c\<in>set ds. isDigit c"
    and c: "caps st = []"
  shows "\<exists>zs. rmatch optLine st
     = \<lparr>pos = pos st + length ds + 1, rest = input, caps = [(''line'', ds)]\<rparr> # zs"
proof -
  let ?g = "\<lambda>k. (adv k st)\<lparr>caps := (''line'', take k (rest st)) # caps st\<rparr>"
  let ?f = "\<lambda>k. rmatch (Lit (CHR '':'')) (?g k)"
  let ?X = "Seq (Group ''line'' (Plus Digit)) (Lit (CHR '':''))"
  have tw: "takeWhile isDigit (rest st) = ds"
    unfolding r by (rule takeWhile_all[OF ds(2)]) (simp add: colon_not_digit)
  have X: "rmatch ?X st = concat (map ?f (rev [Suc 0..<Suc (length ds)]))"
    unfolding rmatch.simps(8) digit_group tw by (simp add: comp_def del: upt_Suc)
  have rg: "rest (?g (length ds)) = CHR '':'' # input" by (simp add: r)
  have cm: "charMatch (\<lambda>x. x = CHR '':'') (?g (length ds)) = [adv 1 (?g (length ds))]"
    using charMatch_Cons[OF rg, of "\<lambda>x. x = CHR '':''"] by simp
  have "adv 1 (?g (length ds))
      = \<lparr>pos = pos st + length ds + 1, rest = input, caps = [(''line'', ds)]\<rparr>"
    using r c by (cases st) (simp add: adv_def)
  then have hit: "?f (length ds)
      = [\<lparr>pos = pos st + length ds + 1, rest = input, caps = [(''line'', ds)]\<rparr>]"
    unfolding rmatch.simps(3) cm by simp
  have j1: "Suc 0 \<le> length ds" using ds(1) by (cases ds) simp_all
  have vac: "\<forall>k. length ds < k \<and> k \<le> length ds \<longrightarrow> ?f k = []" by auto
  have "\<exists>zs. concat (map ?f (rev [Suc 0..<Suc (length ds)]))
      = \<lparr>pos = pos st + length ds + 1, rest = input, caps = [(''line'', ds)]\<rparr> # zs"
    by (rule first_hit[OF j1 le_refl vac hit])
  then obtain zs where "rmatch ?X st
      = \<lparr>pos = pos st + length ds + 1, rest = input, caps = [(''line'', ds)]\<rparr> # zs"
    unfolding X by blast
  then show ?thesis
    unfolding optLine_def rmatch.simps(9) clearCaps_empty[OF c] by (simp add: r)
qed

lemma optLine_none:
  assumes r: "rest st = [] \<or> \<not> isDigit (hd (rest st))" and c: "caps st = []"
  shows "rmatch optLine st = [st]"
proof -
  have "takeWhile isDigit (rest st) = []" using r by (cases "rest st") simp_all
  then show ?thesis
    unfolding optLine_def rmatch.simps(9) clearCaps_empty[OF c] rmatch.simps(8) digit_group
    by simp
qed

lemma rmatch_Bol_lits_colon:
  "rmatch (Seq Bol (foldr Seq (map Lit p) (Seq (Lit (CHR '':'')) r)))
       \<lparr>pos = 0, rest = p @ CHR '':'' # input, caps = []\<rparr>
     = rmatch r \<lparr>pos = length p + 1, rest = input, caps = []\<rparr>"
proof -
  let ?s = "adv (length p) \<lparr>pos = 0, rest = p @ CHR '':'' # input, caps = []\<rparr>"
  have "rest ?s = CHR '':'' # input" by simp
  then have "rmatch (Lit (CHR '':'')) ?s = [adv 1 ?s]"
    by (simp add: rmatch.simps(3) charMatch_Cons)
  then show ?thesis
    by (simp add: rmatch.simps(1) rmatch.simps(8)[of Bol] rmatch.simps(8)[of "Lit _"] rmatch_lits adv_def)
qed

lemma exec_first:
  assumes "rmatch (Seq Bol r) \<lparr>pos = 0, rest = s, caps = []\<rparr> = x # zs"
  shows "exec (Seq Bol r) s = Some (caps x)"
  using assms by (cases s) (simp_all add: exec_def)

lemma exec_none:
  assumes "rmatch (Seq Bol r) \<lparr>pos = 0, rest = s, caps = []\<rparr> = []"
  shows "exec (Seq Bol r) s = None"
  using assms by (cases s) (simp_all add: exec_def execFrom_Bol)

lemma exec_with_line:
  assumes ds: "ds \<noteq> []" "\<forall>c\<in>set ds. isDigit c"
    and ws1: "\<forall>c\<in>set ws1. isSpace c"
    and token: "token \<noteq> []" "\<forall>c\<in>set token. \<not> isSpace c"
    and ws2: "\<forall>c\<in>set ws2. isSpace c"
    and msg: "msg \<noteq> []" "\<not> isSpace (hd msg)" "\<forall>c\<in>set msg. \<not> isLineTerminator c"
    and nocolon: "ws2 = [] \<longrightarrow> CHR '':'' \<notin> set (takeWhile (\<lambda>c. \<not> isSpace c) msg)"
  shows "exec (Seq Bol (foldr Seq (map Lit p) patternTail))
           (p @ CHR '':'' # ds @ CHR '':'' # ws1 @ token @ CHR '':'' # ws2 @ msg)
         = Some [(''body'', msg), (''severity'', [last token]), (''line'', ds)]"
proof -
  let ?input = "ws1 @ token @ CHR '':'' # ws2 @ msg"
  let ?s1 = "\<lparr>pos = length p + 1, rest = ds @ CHR '':'' # ?input, caps = []\<rparr>"
  let ?s2 = "\<lparr>pos = pos ?s1 + length ds + 1, rest = ?input, caps = [(''line'', ds)]\<rparr>"
  obtain ys where o: "rmatch optLine ?s1 = ?s2 # ys"
    using optLine_some[of ?s1 ds ?input, OF _ ds] by auto
  have r2: "rest ?s2 = ws1 @ token @ CHR '':'' # ws2 @ msg" by simp
  obtain zs where f: "rmatch fromSpace ?s2
     = \<lparr>pos = pos ?s2 + length (rest ?s2), rest = [],
        caps = (''body'', msg) # (''severity'', [last token])
               # filter (\<lambda>(m, v). m \<noteq> ''severity'') (caps ?s2)\<rparr> # zs"
    using fromSpace_ok[OF r2 ws1 token ws2 msg nocolon] by blast
  obtain zs' where "rmatch (Seq optLine fromSpace) ?s1
     = \<lparr>pos = pos ?s2 + length (rest ?s2), rest = [],
        caps = (''body'', msg) # (''severity'', [last token])
               # filter (\<lambda>(m, v). m \<noteq> ''severity'') (caps ?s2)\<rparr> # zs'"
    using seq_first[OF o f] by blast
  then have "rmatch (Seq Bol (foldr Seq (map Lit p) patternTail))
       \<lparr>pos = 0, rest = p @ CHR '':'' # ds @ CHR '':'' # ?input, caps = []\<rparr>
     = \<lparr>pos = pos ?s2 + length (rest ?s2), rest = [],
        caps = (''body'', msg) # (''severity'', [last token])
               # filter (\<lambda>(m, v). m \<noteq> ''severity'') (caps ?s2)\<rparr> # zs'"
    unfolding patternTail_parts rmatch_Bol_lits_colon by simp
  from exec_first[OF this] show ?thesis by simp
qed

lemma exec_without_line:
  assumes nodigit: "\<not> isDigit (hd (ws1 @ token))"
    and ws1: "\<forall>c\<in>set ws1. isSpace c"
    and token: "token \<noteq> []" "\<forall>c\<in>set token. \<not> isSpace c"
    and ws2: "\<forall>c\<in>set ws2. isSpace c"
    and msg: "msg \<noteq> []" "\<not> isSpace (hd msg)" "\<forall>c\<in>set msg. \<not> isLineTerminator c"
    and nocolon: "ws2 = [] \<longrightarrow> CHR '':'' \<notin> set (takeWhile (\<lambda>c. \<not> isSpace c) msg)"
  shows "exec (Seq Bol (foldr Seq (map Lit p) patternTail))
           (p @ CHR '':'' # ws1 @ token @ CHR '':'' # ws2 @ msg)
         = Some [(''body'', msg), (''severity'', [last token])]"
proof -
  let ?input = "ws1 @ token @ CHR '':'' # ws2 @ msg"
  let ?s1 = "\<lparr>pos = length p + 1, rest = ?input, caps = []\<rparr>"
  have "hd ?input = hd (ws1 @ token)" using token(1) by (cases ws1; cases token) simp_all
  then have o: "rmatch optLine ?s1 = ?s1 # []"
    using optLine_none[of ?s1] nodigit by simp
  have r1: "rest ?s1 = ws1 @ token @ CHR '':'' # ws2 @ msg" by simp
  obtain zs where f: "rmatch fromSpace ?s1
     = \<lparr>pos = pos ?s1 + length (rest ?s1), rest = [],
        caps = (''body'', msg) # (''severity'', [last token])
               # filter (\<lambda>(m, v). m \<noteq> ''severity'') (caps ?s1)\<rparr> # zs"
    using fromSpace_ok[OF r1 ws1 token ws2 msg nocolon] by blast
  obtain zs' where "rmatch (Seq optLine fromSpace) ?s1
     = \<lparr>pos = pos ?s1 + length (rest ?s1), rest = [],
        caps = (''body'', msg) # (''severity'', [last token])
               # filter (\<lambda>(m, v). m \<noteq> ''severity'') (caps ?s1)\<rparr> # zs'"
    using seq_first[OF o f] by blast
  then have "rmatch (Seq Bol (foldr Seq (map Lit p) patternTail))
       \<lparr>pos = 0, rest = p @ CHR '':'' # ?input, caps = []\<rparr>
     = \<lparr>pos = pos ?s1 + length (rest ?s1), rest = [],
        caps = (''body'', msg) # (''severity'', [last token])
               # filter (\<lambda>(m, v). m \<noteq> ''severity'') (caps ?s1)\<rparr> # zs'"
    unfolding patternTail_parts rmatch_Bol_lits_colon by simp
  from exec_first[OF this] show ?thesis by simp
qed

section \<open>What the line listener makes of a line\<close>

lemma SEVERITY_char:
  "(case SEVERITY [c] of Some v \<Rightarrow> v | None \<Rightarrow> Warning)
     = (if c = CHR ''E'' then Error else Warning)"
  by (simp add: SEVERITY_def)

lemma Number_Nil: "Number [] = 0"
  by (simp add: Number_def)

lemma no_path_no_match:
  assumes "take (length p + 1) line \<noteq> p @ '':''"
  shows "rmatch (Seq Bol (foldr Seq (map Lit p) patternTail))
           \<lparr>pos = 0, rest = line, caps = []\<rparr> = []"
proof (cases "take (length p) line = p")
  case False
  then show ?thesis by (simp add: rmatch.simps(1) rmatch.simps(8)[of Bol] rmatch_lits)
next
  case True
  let ?s = "adv (length p) \<lparr>pos = 0, rest = line, caps = []\<rparr>"
  have "rmatch (Lit (CHR '':'')) ?s = []"
  proof (cases "drop (length p) line")
    case Nil
    then show ?thesis by (simp add: rmatch.simps(3) charMatch_Nil)
  next
    case (Cons c cs)
    then have len: "length p < length line" by (cases "length p < length line") simp_all
    have "line ! length p = c" using Cons by (metis len hd_drop_conv_nth list.sel(1))
    then have "take (length p + 1) line = p @ [c]"
      using take_Suc_conv_app_nth[OF len] True by simp
    then have "c \<noteq> CHR '':''" using assms by auto
    moreover have "rest ?s = c # cs" using Cons by simp
    ultimately show ?thesis by (simp add: rmatch.simps(3) charMatch_Cons[of ?s c cs])
  qed
  then show ?thesis
    by (simp add: rmatch.simps(1) rmatch.simps(8)[of Bol] rmatch.simps(8)[of "Lit _"]
        rmatch_lits True patternTail_parts)
qed

text \<open>
  C2 as stated: every line \<open><path>:<n>:<sev>:<msg>\<close> with \<open>n\<close> in range yields the
  message \<open><msg>\<close> and the severity of \<open><sev>\<close>. It fails for \<open>/ws/pkg.spec:3:E:a:b\<close>:
  the path, the number 3, the severity \<open>E\<close> and the message \<open>a:b\<close>. The group \<open>severity\<close>
  is repeated greedily over \<open>E:a:b\<close> and backs off to the last colon that leaves a body, so
  the listener reports the message \<open>b\<close> with the severity of \<open>a\<close>, which is Warning.
\<close>

theorem message_with_colon_is_cut:
  "diagnostics (run [ReaderLine 0 ''/ws/pkg.spec:3:E:a:b'', ReaderClose 0]
                  (lint pkgSpec freshSession)) (uri pkgSpec)
     = Some [\<lparr>rangeLine = 2, message = ''b'', severity = Warning\<rparr>]
   \<and> diagnostics (run [ReaderLine 0 ''/ws/pkg.spec:3:E:a:b'', ReaderClose 0]
                    (lint pkgSpec freshSession)) (uri pkgSpec)
     \<noteq> Some [\<lparr>rangeLine = 2, message = ''a:b'', severity = Error\<rparr>]"
  by code_simp

text \<open>
  C2 amended: for a line \<open><path>:<n>:<sev>:<ws><msg>\<close>, where \<open><n>\<close> is a decimal
  number with \<open>1 \<le> n \<le> lineCount\<close>, \<open><sev>\<close> is one character that is not white space,
  \<open><ws>\<close> is white space (possibly none), and \<open><msg>\<close> is not empty, starts with a
  character that is not white space, has no line terminator and, when \<open><ws>\<close> is empty,
  has no colon before its first white space: the listener pushes one diagnostic, with line
  index \<open>n - 1\<close>, message \<open><msg>\<close>, and severity Error for \<open>E\<close> and Warning for every other
  character, \<open>W\<close> included.
\<close>

theorem well_formed_line_diagnostic:
  assumes ds: "ds \<noteq> []" "\<forall>c\<in>set ds. isDigit c"
    and n: "1 \<le> Number ds" "Number ds \<le> lineCount document"
    and sev: "\<not> isSpace sev"
    and ws: "\<forall>c\<in>set ws. isSpace c"
    and msg: "msg \<noteq> []" "\<not> isSpace (hd msg)" "\<forall>c\<in>set msg. \<not> isLineTerminator c"
    and nocolon: "ws = [] \<longrightarrow> CHR '':'' \<notin> set (takeWhile (\<lambda>c. \<not> isSpace c) msg)"
  shows "\<exists>re. diagnosticPattern (fsPath (uri document)) = Some re
    \<and> onLine document re
         (fsPath (uri document) @ '':'' @ ds @ '':'' @ [sev] @ '':'' @ ws @ msg) array
       = array @ [\<lparr>rangeLine = int (Number ds) - 1, message = msg,
                   severity = (if sev = CHR ''E'' then Error else Warning)\<rparr>]"
proof -
  have "exec (Seq Bol (foldr Seq (map Lit (fsPath (uri document))) patternTail))
           (fsPath (uri document) @ CHR '':'' # ds @ CHR '':'' # [] @ [sev] @ CHR '':'' # ws @ msg)
         = Some [(''body'', msg), (''severity'', [last [sev]]), (''line'', ds)]"
    by (rule exec_with_line[OF ds _ _ _ ws msg nocolon]) (simp_all add: sev)
  then show ?thesis
    using ds(1) n
    by (simp add: diagnosticPattern_eq onLine_def lineDiagnostic_def safeLineNumber_def
        lineNumber_def SEVERITY_char)
qed

theorem well_formed_line_diagnostic_witness:
  "\<exists>re. diagnosticPattern ''/ws/pkg.spec'' = Some re
    \<and> onLine pkgSpec re ''/ws/pkg.spec:3:W: trailing whitespace'' []
       = [\<lparr>rangeLine = 2, message = ''trailing whitespace'', severity = Warning\<rparr>]"
proof -
  have h: "''3'' \<noteq> []" "\<forall>c\<in>set ''3''. isDigit c" "1 \<le> Number ''3''"
      "Number ''3'' \<le> lineCount pkgSpec" "\<not> isSpace (CHR ''W'')" "\<forall>c\<in>set '' ''. isSpace c"
      "''trailing whitespace'' \<noteq> []" "\<not> isSpace (hd ''trailing whitespace'')"
      "\<forall>c\<in>set ''trailing whitespace''. \<not> isLineTerminator c"
      "'' '' = [] \<longrightarrow>
         CHR '':'' \<notin> set (takeWhile (\<lambda>c. \<not> isSpace c) ''trailing whitespace'')"
    by code_simp+
  have p: "fsPath (uri pkgSpec) = ''/ws/pkg.spec''" by code_simp
  have n: "int (Number ''3'') - 1 = 2" by code_simp
  show ?thesis
    using well_formed_line_diagnostic[OF h, of "[]"] unfolding p n by simp
qed

text \<open>
  C3: whenever a line matches the pattern of the document, the listener pushes one
  diagnostic, and its line index lies between 0 and \<open>lineCount - 1\<close> (it is 0 for a
  document without lines). The index is 0 when the match has no line number, 0 when the
  number is below 1, and \<open>lineCount - 1\<close> when the number is above \<open>lineCount\<close>.
\<close>

theorem line_index_is_clamped:
  assumes "diagnosticPattern (fsPath (uri document)) = Some re" "exec re line = Some groups"
  shows "onLine document re line array = array @ [lineDiagnostic document groups]
    \<and> 0 \<le> rangeLine (lineDiagnostic document groups)
    \<and> rangeLine (lineDiagnostic document groups) \<le> max (int (lineCount document) - 1) 0
    \<and> (map_of groups ''line'' = None \<longrightarrow> rangeLine (lineDiagnostic document groups) = 0)
    \<and> (\<forall>l. map_of groups ''line'' = Some l \<and> Number l < 1
          \<longrightarrow> rangeLine (lineDiagnostic document groups) = 0)
    \<and> (\<forall>l. map_of groups ''line'' = Some l \<and> lineCount document < Number l
          \<longrightarrow> rangeLine (lineDiagnostic document groups) = max (int (lineCount document) - 1) 0)"
  using assms(2)
  by (auto simp: onLine_def lineDiagnostic_def safeLineNumber_def lineNumber_def Number_Nil)

theorem line_index_is_clamped_witness:
  "onLine pkgSpec (Seq Bol (foldr Seq (map Lit ''/ws/pkg.spec'') patternTail))
       ''/ws/pkg.spec:99:W: stale'' []
     = [lineDiagnostic pkgSpec [(''body'', ''stale''), (''severity'', ''W''), (''line'', ''99'')]]
   \<and> rangeLine (lineDiagnostic pkgSpec
        [(''body'', ''stale''), (''severity'', ''W''), (''line'', ''99'')]) = 4"
proof -
  let ?re = "Seq Bol (foldr Seq (map Lit ''/ws/pkg.spec'') patternTail)"
  let ?groups = "[(''body'', ''stale''), (''severity'', ''W''), (''line'', ''99'')]"
  have h1: "diagnosticPattern (fsPath (uri pkgSpec)) = Some ?re" by code_simp
  have h2: "exec ?re ''/ws/pkg.spec:99:W: stale'' = Some ?groups" by code_simp
  have l: "map_of ?groups ''line'' = Some ''99'' \<and> lineCount pkgSpec < Number ''99''"
    by code_simp
  have m: "max (int (lineCount pkgSpec) - 1) 0 = 4" by code_simp
  show ?thesis using line_index_is_clamped[OF h1 h2, of "[]"] l m by auto
qed

text \<open>
  C4: a line that does not begin with the file path of the document followed by a colon
  does not match the pattern of the document, and the listener leaves the array as it is.
\<close>

theorem other_lines_are_ignored:
  assumes "take (length (fsPath (uri document)) + 1) line \<noteq> fsPath (uri document) @ '':''"
  shows "\<exists>re. diagnosticPattern (fsPath (uri document)) = Some re
    \<and> exec re line = None \<and> onLine document re line array = array"
proof -
  have "exec (Seq Bol (foldr Seq (map Lit (fsPath (uri document))) patternTail)) line = None"
    by (rule exec_none[OF no_path_no_match[OF assms]])
  then show ?thesis by (simp add: diagnosticPattern_eq onLine_def)
qed

theorem other_lines_are_ignored_witness:
  "\<exists>re. diagnosticPattern (fsPath (uri pkgSpec)) = Some re
    \<and> exec re ''unrelated text'' = None \<and> onLine pkgSpec re ''unrelated text'' [] = []"
  by (rule other_lines_are_ignored) code_simp

text \<open>
  C10: the severity token may be any run of one or more characters that are not white
  space. For a line \<open><path>:[<n>:]<ws1><token>:<ws2><msg>\<close>, with \<open><n>\<close> a decimal
  number or left out (and then \<open><ws1><token>\<close> not starting with a digit), \<open><ws1>\<close> and
  \<open><ws2>\<close> white space, and \<open><msg>\<close> as in C2, the line matches: the listener pushes one
  diagnostic with message \<open><msg>\<close>, and its severity is that of the last character of
  the token: Error for \<open>E\<close>, Warning for \<open>W\<close> and for every other character.
\<close>

theorem severity_of_last_token_character:
  assumes token: "token \<noteq> []" "\<forall>c\<in>set token. \<not> isSpace c"
    and lineNo: "case lineNo of None \<Rightarrow> \<not> isDigit (hd (ws1 @ token))
                 | Some ds \<Rightarrow> ds \<noteq> [] \<and> (\<forall>c\<in>set ds. isDigit c)"
    and ws1: "\<forall>c\<in>set ws1. isSpace c"
    and ws2: "\<forall>c\<in>set ws2. isSpace c"
    and msg: "msg \<noteq> []" "\<not> isSpace (hd msg)" "\<forall>c\<in>set msg. \<not> isLineTerminator c"
    and nocolon: "ws2 = [] \<longrightarrow> CHR '':'' \<notin> set (takeWhile (\<lambda>c. \<not> isSpace c) msg)"
  shows "\<exists>re d. diagnosticPattern (fsPath (uri document)) = Some re
    \<and> onLine document re
         (fsPath (uri document) @ '':'' @ (case lineNo of None \<Rightarrow> [] | Some ds \<Rightarrow> ds @ '':'')
            @ ws1 @ token @ '':'' @ ws2 @ msg) array
       = array @ [d]
    \<and> message d = msg
    \<and> severity d = (if last token = CHR ''E'' then Error else Warning)"
proof (cases lineNo)
  case None
  have "exec (Seq Bol (foldr Seq (map Lit (fsPath (uri document))) patternTail))
           (fsPath (uri document) @ CHR '':'' # ws1 @ token @ CHR '':'' # ws2 @ msg)
         = Some [(''body'', msg), (''severity'', [last token])]"
    by (rule exec_without_line[OF _ ws1 token ws2 msg nocolon]) (use lineNo None in simp)
  then show ?thesis
    by (simp add: None diagnosticPattern_eq onLine_def lineDiagnostic_def SEVERITY_char)
next
  case (Some ds)
  have ds: "ds \<noteq> []" "\<forall>c\<in>set ds. isDigit c" using lineNo Some by simp_all
  have "exec (Seq Bol (foldr Seq (map Lit (fsPath (uri document))) patternTail))
           (fsPath (uri document) @ CHR '':'' # ds @ CHR '':'' # ws1 @ token @ CHR '':'' # ws2 @ msg)
         = Some [(''body'', msg), (''severity'', [last token]), (''line'', ds)]"
    by (rule exec_with_line[OF ds ws1 token ws2 msg nocolon])
  then show ?thesis
    by (simp add: Some diagnosticPattern_eq onLine_def lineDiagnostic_def SEVERITY_char)
qed

theorem severity_of_last_token_character_witness:
  "\<exists>re d. diagnosticPattern ''/ws/pkg.spec'' = Some re
    \<and> onLine pkgSpec re ''/ws/pkg.spec:3: FATAL-E: bad tag'' [] = [d]
    \<and> message d = ''bad tag'' \<and> severity d = Error"
proof -
  have h: "''FATAL-E'' \<noteq> []" "\<forall>c\<in>set ''FATAL-E''. \<not> isSpace c"
      "case Some ''3'' of None \<Rightarrow> \<not> isDigit (hd ('' '' @ ''FATAL-E''))
       | Some ds \<Rightarrow> ds \<noteq> [] \<and> (\<forall>c\<in>set ds. isDigit c)"
      "\<forall>c\<in>set '' ''. isSpace c" "\<forall>c\<in>set '' ''. isSpace c"
      "''bad tag'' \<noteq> []" "\<not> isSpace (hd ''bad tag'')"
      "\<forall>c\<in>set ''bad tag''. \<not> isLineTerminator c"
      "'' '' = [] \<longrightarrow> CHR '':'' \<notin> set (takeWhile (\<lambda>c. \<not> isSpace c) ''bad tag'')"
    by code_simp+
  have p: "fsPath (uri pkgSpec) = ''/ws/pkg.spec''" by code_simp
  show ?thesis
    using severity_of_last_token_character[OF h, of pkgSpec "[]"] unfolding p by simp
qed

end
